theory Spec2Isabelle
  imports Complex_Main "HOL-Library.Word" "HOL-Library.Sublist" "HOL-Library.Multiset"
begin

section \<open>JavaScript strings\<close>

text \<open>
  A JavaScript string is a sequence of UTF-16 code units; \<open>length\<close>, \<open>slice\<close>,
  \<open>trim\<close> and a regular expression without the \<open>u\<close> flag all count and match
  code units. A string literal of the source is written \<open>js ''...''\<close>.
\<close>

type_synonym jschar = "16 word"
type_synonym jsstring = "jschar list"

definition js :: "string \<Rightarrow> jsstring" where
  "js s = map of_char s"

text \<open>
  The code units that \<open>String.prototype.trim\<close> strips and that \<open>\s\<close> matches:
  the WhiteSpace and LineTerminator productions of ECMAScript.
\<close>

definition is_ws :: "jschar \<Rightarrow> bool" where
  "is_ws c = (c \<in> set [0x9, 0xA, 0xB, 0xC, 0xD, 0x20, 0xA0, 0x1680,
      0x2000, 0x2001, 0x2002, 0x2003, 0x2004, 0x2005, 0x2006, 0x2007, 0x2008, 0x2009, 0x200A,
      0x2028, 0x2029, 0x202F, 0x205F, 0x3000, 0xFEFF])"

text \<open>The character class \<open>[.!?]\<close>.\<close>

definition is_term :: "jschar \<Rightarrow> bool" where
  "is_term c = (c = 0x2E \<or> c = 0x21 \<or> c = 0x3F)"

definition space :: jschar where
  "space = 0x20"

definition trim :: "jsstring \<Rightarrow> jsstring" where
  "trim s = rev (dropWhile is_ws (rev (dropWhile is_ws s)))"

text \<open>
  \<open>xs.slice(start, end)\<close> on a string or an array, for integer arguments (\<open>None\<close>
  for an omitted \<open>end\<close>): a negative index counts from the end, and both indices are
  clamped to the length.
\<close>

definition js_slice :: "'a list \<Rightarrow> int \<Rightarrow> int option \<Rightarrow> 'a list" where
  "js_slice xs start endIndex =
     (let len = int (length xs);
          from = (if start < 0 then max (len + start) 0 else min start len);
          final = (case endIndex of
                     None \<Rightarrow> len
                   | Some e \<Rightarrow> if e < 0 then max (len + e) 0 else min e len)
      in take (nat (final - from)) (drop (nat from) xs))"

text \<open>\<open>xs.join(sep)\<close> on an array of strings.\<close>

fun join :: "jsstring \<Rightarrow> jsstring list \<Rightarrow> jsstring" where
  "join sep [] = []"
| "join sep [x] = x"
| "join sep (x # xs) = x @ sep @ join sep xs"

text \<open>The decimal digits of a natural number, as \<open>String(n)\<close> gives them.\<close>

fun decimal :: "nat \<Rightarrow> jsstring" where
  "decimal n = (if n < 10 then [of_nat (48 + n)] else decimal (n div 10) @ [of_nat (48 + n mod 10)])"

text \<open>
  The strings that \<open>for (const char of s)\<close> iterates over: one per code point, a
  surrogate pair staying together.
\<close>

fun code_points :: "jsstring \<Rightarrow> jsstring list" where
  "code_points (a # b # s) =
     (if 0xD800 \<le> a \<and> a \<le> 0xDBFF \<and> 0xDC00 \<le> b \<and> b \<le> 0xDFFF
      then [a, b] # code_points s else [a] # code_points (b # s))"
| "code_points [a] = [[a]]"
| "code_points [] = []"

section \<open>Document processor: \<open>chunkText\<close>\<close>

text \<open>
  One attempt of the regular expression \<open>/[.!?]+\s+/\<close> at the front of a string: a
  non-empty run of terminators, taken greedily, followed by a non-empty run of white
  space, taken greedily. The two classes are disjoint, so giving back terminators never
  helps and the greedy attempt decides the match. The result is the text after the match.
\<close>

fun match_sep :: "jsstring \<Rightarrow> jsstring option" where
  "match_sep [] = None"
| "match_sep (c # cs) =
     (if is_term c then
        (case dropWhile is_term cs of
           [] \<Rightarrow> None
         | w # ws \<Rightarrow> if is_ws w then Some (dropWhile is_ws ws) else None)
      else None)"

text \<open>
  \<open>text.split(/[.!?]+\s+/)\<close>: scan from the left; where the separator matches, close
  the current piece and continue after the match, otherwise move one code unit on. The
  piece that is open at the end of the string is always emitted, so the empty string
  splits into one empty piece. (The limit of \<open>2^32 - 1\<close> pieces is not modelled.)
\<close>

function split_loop :: "jsstring \<Rightarrow> jsstring \<Rightarrow> jsstring list" where
  "split_loop piece [] = [piece]"
| "split_loop piece (c # cs) =
     (case match_sep (c # cs) of
        Some rest \<Rightarrow> piece # split_loop [] rest
      | None \<Rightarrow> split_loop (piece @ [c]) cs)"
  by pat_completeness auto
termination
proof (relation "measure (\<lambda>(piece, s). length s)")
  show "wf (measure (\<lambda>(piece, s). length s))" by simp
next
  fix piece :: jsstring and c cs rest
  assume "match_sep (c # cs) = Some rest"
  then obtain w ws where "dropWhile is_term cs = w # ws" and "rest = dropWhile is_ws ws"
    by (auto split: if_splits list.splits)
  then have "length rest \<le> length ws" and "length (w # ws) \<le> length cs"
    using length_dropWhile_le [of is_ws ws] length_dropWhile_le [of is_term cs] by simp_all
  then show "((([]::jsstring), rest), (piece, c # cs)) \<in> measure (\<lambda>(piece, s). length s)"
    by simp
next
  fix piece :: jsstring and c cs
  show "((piece @ [c], cs), (piece, c # cs)) \<in> measure (\<lambda>(piece, s). length s)"
    by simp
qed

definition split_sentences :: "jsstring \<Rightarrow> jsstring list" where
  "split_sentences text = split_loop [] text"

text \<open>
  The body of the \<open>for\<close> loop of \<open>chunkText\<close> on the state \<open>(chunks, currentChunk)\<close>;
  \<open>previousChunk\<close> only lives inside one iteration. \<open>chunkSize\<close> and \<open>overlap\<close> are
  integers.
\<close>

fun chunk_step :: "int \<Rightarrow> int \<Rightarrow> jsstring list \<times> jsstring \<Rightarrow> jsstring \<Rightarrow> jsstring list \<times> jsstring" where
  "chunk_step chunkSize overlap (chunks, currentChunk) sentence =
     (let trimmedSentence = trim sentence in
      if trimmedSentence = [] then (chunks, currentChunk)
      else if int (length currentChunk) + int (length trimmedSentence) > chunkSize then
        (if currentChunk \<noteq> [] then
           (chunks @ [trim currentChunk],
            js_slice currentChunk (- overlap) None @ [space] @ trimmedSentence)
         else (chunks @ [trimmedSentence], []))
      else (chunks, currentChunk @ (if currentChunk \<noteq> [] then [space] else []) @ trimmedSentence))"

text \<open>The chunks collected by the loop and the final push, before the length filter.\<close>

definition chunk_scan :: "jsstring \<Rightarrow> int \<Rightarrow> int \<Rightarrow> jsstring list" where
  "chunk_scan text chunkSize overlap =
     (case foldl (chunk_step chunkSize overlap) ([], []) (split_sentences text) of
        (chunks, currentChunk) \<Rightarrow>
          if trim currentChunk \<noteq> [] then chunks @ [trim currentChunk] else chunks)"

definition chunkText :: "jsstring \<Rightarrow> int \<Rightarrow> int \<Rightarrow> jsstring list" where
  "chunkText text chunkSize overlap =
     filter (\<lambda>chunk. length chunk > 50) (chunk_scan text chunkSize overlap)"

section \<open>JavaScript numbers\<close>

text \<open>
  A \<open>number\<close> that takes part in arithmetic is an IEEE 754 double: a real value, an
  infinity or \<open>NaN\<close>. The two zeros are one value \<open>Num 0\<close>: they are equal under
  \<open>===\<close>, \<open><\<close> and \<open>>\<close>, and they differ only as divisors, which
  \<open>cosineSimilarity\<close> never makes them (its divisor is a product of square roots of
  non-zero norms). Every operation returns the exact result rounded to the nearest double,
  ties to the even significand. The type also holds the reals that are not doubles; the
  operations never return one.
\<close>

datatype number = Num real | PInf | NInf | NaN

text \<open>The integer nearest to a real, the even one of two nearest.\<close>

definition round_even :: "real \<Rightarrow> int" where
  "round_even r =
     (let f = \<lfloor>r\<rfloor> in
      if r - of_int f < 1 / 2 then f
      else if 1 / 2 < r - of_int f then f + 1
      else if even f then f else f + 1)"

text \<open>
  The exponent of the spacing of the doubles around a real: 52 below the exponent of the
  real, and \<open>- 1074\<close> throughout the subnormal range.
\<close>

definition ulp_exponent :: "real \<Rightarrow> int" where
  "ulp_exponent x = max \<lfloor>log 2 \<bar>x\<bar>\<rfloor> (- 1022) - 52"

text \<open>
  Rounding to double precision: the nearest multiple of the spacing, and an infinity
  when that multiple reaches \<open>2 ^ 1024\<close>.
\<close>

definition rnd :: "real \<Rightarrow> number" where
  "rnd x =
     (let u = ulp_exponent x;
          r = of_int (round_even (x / 2 powi u)) * 2 powi u
      in if 2 ^ 1024 \<le> r then PInf else if r \<le> - (2 ^ 1024) then NInf else Num r)"

fun fneg :: "number \<Rightarrow> number" where
  "fneg (Num x) = Num (- x)"
| "fneg PInf = NInf"
| "fneg NInf = PInf"
| "fneg NaN = NaN"

text \<open>\<open>a + b\<close>.\<close>

fun fadd :: "number \<Rightarrow> number \<Rightarrow> number" where
  "fadd (Num x) (Num y) = rnd (x + y)"
| "fadd NaN b = NaN"
| "fadd a NaN = NaN"
| "fadd PInf NInf = NaN"
| "fadd NInf PInf = NaN"
| "fadd PInf b = PInf"
| "fadd a PInf = PInf"
| "fadd NInf b = NInf"
| "fadd a NInf = NInf"

text \<open>\<open>a - b\<close>.\<close>

definition fsub :: "number \<Rightarrow> number \<Rightarrow> number" where
  "fsub a b = fadd a (fneg b)"

text \<open>\<open>a * b\<close>.\<close>

fun fmul :: "number \<Rightarrow> number \<Rightarrow> number" where
  "fmul (Num x) (Num y) = rnd (x * y)"
| "fmul NaN b = NaN"
| "fmul a NaN = NaN"
| "fmul (Num x) PInf = (if x = 0 then NaN else if 0 < x then PInf else NInf)"
| "fmul (Num x) NInf = (if x = 0 then NaN else if 0 < x then NInf else PInf)"
| "fmul PInf (Num y) = (if y = 0 then NaN else if 0 < y then PInf else NInf)"
| "fmul NInf (Num y) = (if y = 0 then NaN else if 0 < y then NInf else PInf)"
| "fmul PInf PInf = PInf"
| "fmul PInf NInf = NInf"
| "fmul NInf PInf = NInf"
| "fmul NInf NInf = PInf"

text \<open>\<open>a / b\<close>; a zero divisor is taken as the positive zero.\<close>

fun fdiv :: "number \<Rightarrow> number \<Rightarrow> number" where
  "fdiv (Num x) (Num y) =
     (if y = 0 then (if x = 0 then NaN else if 0 < x then PInf else NInf) else rnd (x / y))"
| "fdiv NaN b = NaN"
| "fdiv a NaN = NaN"
| "fdiv (Num x) PInf = Num 0"
| "fdiv (Num x) NInf = Num 0"
| "fdiv PInf (Num y) = (if y < 0 then NInf else PInf)"
| "fdiv NInf (Num y) = (if y < 0 then PInf else NInf)"
| "fdiv PInf PInf = NaN"
| "fdiv PInf NInf = NaN"
| "fdiv NInf PInf = NaN"
| "fdiv NInf NInf = NaN"

text \<open>\<open>Math.sqrt(a)\<close>.\<close>

fun fsqrt :: "number \<Rightarrow> number" where
  "fsqrt (Num x) = (if x < 0 then NaN else rnd (sqrt x))"
| "fsqrt PInf = PInf"
| "fsqrt NInf = NaN"
| "fsqrt NaN = NaN"

text \<open>\<open>a > 0\<close>, \<open>a < b\<close> and \<open>a <= b\<close>: every comparison with \<open>NaN\<close> is false.\<close>

fun positive :: "number \<Rightarrow> bool" where
  "positive (Num x) = (0 < x)"
| "positive PInf = True"
| "positive NInf = False"
| "positive NaN = False"

fun fless :: "number \<Rightarrow> number \<Rightarrow> bool" where
  "fless (Num x) (Num y) = (x < y)"
| "fless NaN b = False"
| "fless a NaN = False"
| "fless PInf b = False"
| "fless a NInf = False"
| "fless a PInf = True"
| "fless NInf b = True"

fun fle :: "number \<Rightarrow> number \<Rightarrow> bool" where
  "fle (Num x) (Num y) = (x \<le> y)"
| "fle NaN b = False"
| "fle a NaN = False"
| "fle NInf b = True"
| "fle a PInf = True"
| "fle PInf b = False"
| "fle a NInf = False"

text \<open>
  \<open>xs.sort(cmp)\<close>: an element goes behind another one only where the comparator is
  positive, a \<open>NaN\<close> comparator counting as zero. For a consistent comparator this is
  the one stable sorted order. Where a \<open>NaN\<close> makes the comparator inconsistent,
  ECMAScript leaves the order to the implementation; the model then has the order of
  the insertion sort.
\<close>

fun sort_insert :: "('a \<Rightarrow> 'a \<Rightarrow> number) \<Rightarrow> 'a \<Rightarrow> 'a list \<Rightarrow> 'a list" where
  "sort_insert cmp x [] = [x]"
| "sort_insert cmp x (y # ys) =
     (if positive (cmp x y) then y # sort_insert cmp x ys else x # y # ys)"

definition js_sort :: "('a \<Rightarrow> 'a \<Rightarrow> number) \<Rightarrow> 'a list \<Rightarrow> 'a list" where
  "js_sort cmp xs = foldr (sort_insert cmp) xs []"

section \<open>Shared schema\<close>

text \<open>
  The rows of the schema. A nullable column is an \<open>option\<close>; a timestamp is the
  number of milliseconds of a \<open>Date\<close>; the components of an embedding are doubles; a
  \<open>number\<close> that holds a count or an index is an integer, and the confidence of a
  citation is the decimal that the source writes. The insert types are the rows without
  the generated columns, and a row extends its insert type, as the spread
  \<open>{...insert, id}\<close> builds it.
  Fields keep the names of the schema; \<open>id\<close> and a second \<open>content\<close> carry the name
  of their row.
\<close>

record citation =
  source :: jsstring
  excerpt :: jsstring
  confidence :: "real option"
  page :: "int option"

record documentMetadata =
  fileName :: jsstring
  fileId :: jsstring
  totalChunks :: int
  processedAt :: jsstring

record insertMessage =
  conversationId :: jsstring
  role :: jsstring
  content :: jsstring
  citations :: "citation list option"

record message = insertMessage +
  message_id :: jsstring
  timestamp :: int

record insertConversation =
  title :: "jsstring option"

record conversation = insertConversation +
  conversation_id :: jsstring
  createdAt :: int
  updatedAt :: int

text \<open>
  \<open>Partial<Conversation>\<close>: each key is either absent (\<open>None\<close>) or carries a value
  of the column's type.
\<close>

record partialConversation =
  new_id :: "jsstring option"
  new_title :: "jsstring option option"
  new_createdAt :: "int option"
  new_updatedAt :: "int option"

record insertDocumentChunk =
  documentId :: jsstring
  chunk_content :: jsstring
  embedding :: "number list option"
  metadata :: "documentMetadata option"
  chunkIndex :: int

record documentChunk = insertDocumentChunk +
  chunk_id :: jsstring

section \<open>Storage: \<open>MemStorage\<close>\<close>

text \<open>
  A JavaScript \<open>Map\<close> keeps its entries in insertion order: \<open>set\<close> on a key that is
  present replaces the value where it stands, \<open>set\<close> on a new key appends, and
  \<open>values()\<close> lists the values in that order.
\<close>

type_synonym 'v jsmap = "(jsstring \<times> 'v) list"

fun map_set :: "jsstring \<Rightarrow> 'v \<Rightarrow> 'v jsmap \<Rightarrow> 'v jsmap" where
  "map_set k v [] = [(k, v)]"
| "map_set k v ((k', v') # m) = (if k' = k then (k, v) # m else (k', v') # map_set k v m)"

definition map_get :: "'v jsmap \<Rightarrow> jsstring \<Rightarrow> 'v option" where
  "map_get m k = map_of m k"

definition map_values :: "'v jsmap \<Rightarrow> 'v list" where
  "map_values m = map snd m"

record memStorage =
  messages :: "message jsmap"
  conversations :: "conversation jsmap"
  documentChunks :: "documentChunk jsmap"

text \<open>The constructor.\<close>

definition newMemStorage :: memStorage where
  "newMemStorage = \<lparr>messages = [], conversations = [], documentChunks = []\<rparr>"

text \<open>A thrown \<open>Error\<close> with its message.\<close>

datatype error = Error jsstring

text \<open>
  Every method takes the store and returns its result with the store it leaves. The
  values of \<open>randomUUID()\<close> and \<open>new Date()\<close> are arguments.
\<close>

definition createMessage ::
  "memStorage \<Rightarrow> insertMessage \<Rightarrow> jsstring \<Rightarrow> int \<Rightarrow> message \<times> memStorage" where
  "createMessage s insertMessage uuid now =
     (let msg = insertMessage.extend insertMessage
                  (message.fields uuid now)
      in (msg, s\<lparr>messages := map_set uuid msg (messages s)\<rparr>))"

definition getMessagesByConversation ::
  "memStorage \<Rightarrow> jsstring \<Rightarrow> message list \<times> memStorage" where
  "getMessagesByConversation s cid =
     (sort_key timestamp (filter (\<lambda>msg. conversationId msg = cid) (map_values (messages s))), s)"

definition createConversation ::
  "memStorage \<Rightarrow> insertConversation \<Rightarrow> jsstring \<Rightarrow> int \<Rightarrow> conversation \<times> memStorage" where
  "createConversation s insertConversation uuid now =
     (let conv = insertConversation.extend insertConversation
                   (conversation.fields uuid now now)
      in (conv, s\<lparr>conversations := map_set uuid conv (conversations s)\<rparr>))"

definition getConversation ::
  "memStorage \<Rightarrow> jsstring \<Rightarrow> conversation option \<times> memStorage" where
  "getConversation s cid = (map_get (conversations s) cid, s)"

text \<open>\<open>{...existing, ...data, updatedAt: new Date()}\<close>.\<close>

definition merge_conversation :: "conversation \<Rightarrow> partialConversation \<Rightarrow> int \<Rightarrow> conversation" where
  "merge_conversation existing data now =
     \<lparr>title = (case new_title data of None \<Rightarrow> title existing | Some t \<Rightarrow> t),
      conversation_id = (case new_id data of None \<Rightarrow> conversation_id existing | Some i \<Rightarrow> i),
      createdAt = (case new_createdAt data of None \<Rightarrow> createdAt existing | Some t \<Rightarrow> t),
      updatedAt = now\<rparr>"

definition not_found :: "jsstring \<Rightarrow> error" where
  "not_found cid = Error (js ''Conversation '' @ cid @ js '' not found'')"

definition updateConversation ::
  "memStorage \<Rightarrow> jsstring \<Rightarrow> partialConversation \<Rightarrow> int \<Rightarrow> (error + conversation) \<times> memStorage" where
  "updateConversation s cid data now =
     (case map_get (conversations s) cid of
        None \<Rightarrow> (Inl (not_found cid), s)
      | Some existing \<Rightarrow>
          (let updated = merge_conversation existing data now
           in (Inr updated, s\<lparr>conversations := map_set cid updated (conversations s)\<rparr>)))"

definition createDocumentChunk ::
  "memStorage \<Rightarrow> insertDocumentChunk \<Rightarrow> jsstring \<Rightarrow> documentChunk \<times> memStorage" where
  "createDocumentChunk s insertChunk uuid =
     (let chunk = insertDocumentChunk.extend insertChunk (documentChunk.fields uuid)
      in (chunk, s\<lparr>documentChunks := map_set uuid chunk (documentChunks s)\<rparr>))"

definition getDocumentChunks ::
  "memStorage \<Rightarrow> jsstring \<Rightarrow> documentChunk list \<times> memStorage" where
  "getDocumentChunks s did =
     (sort_key chunkIndex (filter (\<lambda>chunk. documentId chunk = did) (map_values (documentChunks s))), s)"

text \<open>The loop of \<open>cosineSimilarity\<close> on the accumulators \<open>(dotProduct, normA, normB)\<close>.\<close>

fun cosine_loop ::
  "number list \<Rightarrow> number list \<Rightarrow> number \<times> number \<times> number \<Rightarrow> number \<times> number \<times> number" where
  "cosine_loop (x # a) (y # b) (dotProduct, normA, normB) =
     cosine_loop a b (fadd dotProduct (fmul x y), fadd normA (fmul x x), fadd normB (fmul y y))"
| "cosine_loop a b acc = acc"

definition cosineSimilarity :: "number list \<Rightarrow> number list \<Rightarrow> number" where
  "cosineSimilarity a b =
     (if length a \<noteq> length b then Num 0
      else case cosine_loop a b (Num 0, Num 0, Num 0) of
        (dotProduct, normA, normB) \<Rightarrow>
          if normA = Num 0 \<or> normB = Num 0 then Num 0
          else fdiv dotProduct (fmul (fsqrt normA) (fsqrt normB)))"

text \<open>\<open>chunk.embedding && chunk.embedding.length > 0\<close>.\<close>

definition has_embedding :: "documentChunk \<Rightarrow> bool" where
  "has_embedding chunk = (case embedding chunk of None \<Rightarrow> False | Some e \<Rightarrow> length e > 0)"

text \<open>
  The score of a chunk that passed the filter; \<open>chunk.embedding!\<close> is the embedding
  that the filter found.
\<close>

definition similarity_to :: "number list \<Rightarrow> documentChunk \<Rightarrow> number" where
  "similarity_to queryEmbedding chunk = cosineSimilarity queryEmbedding (the (embedding chunk))"

text \<open>
  The comparator \<open>(a, b) => b.similarity - a.similarity\<close> on the scored chunks, and
  the search. \<open>limit\<close> is an integer.
\<close>

definition by_similarity :: "documentChunk \<times> number \<Rightarrow> documentChunk \<times> number \<Rightarrow> number" where
  "by_similarity a b = fsub (snd b) (snd a)"

definition searchChunksByEmbedding ::
  "memStorage \<Rightarrow> number list \<Rightarrow> int \<Rightarrow> documentChunk list \<times> memStorage" where
  "searchChunksByEmbedding s queryEmbedding limit =
     (let chunksWithScores =
            js_slice
              (js_sort by_similarity
                 (map (\<lambda>chunk. (chunk, similarity_to queryEmbedding chunk))
                    (filter has_embedding (map_values (documentChunks s)))))
              0 (Some limit)
      in (map fst chunksWithScores, s))"

definition getAllChunks :: "memStorage \<Rightarrow> documentChunk list \<times> memStorage" where
  "getAllChunks s = (map_values (documentChunks s), s)"

section \<open>RAG service\<close>

text \<open>
  The calls that leave the program are arguments of the model: the embedding and
  completion provider, each call either failing with an \<open>Error\<close> or returning its value,
  and the streamed completion as the tokens it yields followed by the error that ended
  it, if any.
\<close>

record providers =
  generateEmbedding :: "jsstring \<Rightarrow> error + number list"
  generateEmbeddings :: "jsstring list \<Rightarrow> error + number list list"
  generateChatCompletion :: "jsstring \<Rightarrow> jsstring \<Rightarrow> error + jsstring"
  generateChatCompletionStream :: "jsstring \<Rightarrow> jsstring \<Rightarrow> jsstring list \<times> error option"

text \<open>The value of \<open>processDocument\<close>, as far as \<open>indexDocument\<close> reads it.\<close>

record processedDocument =
  doc_fileId :: jsstring
  doc_fileName :: jsstring
  doc_chunks :: "jsstring list"

record rAGResponse =
  answer :: jsstring
  answer_citations :: "citation list"

text \<open>The events that \<open>queryRAGStream\<close> yields, tagged by their \<open>type\<close>.\<close>

datatype event = Citations "citation list" | Token jsstring

text \<open>
  The callback of \<open>processed.chunks.map\<close> in \<open>indexDocument\<close>: it calls
  \<open>createDocumentChunk\<close>, which runs to its end without suspending, so the chunks are
  stored one after the other in the order of the array. \<open>embeddings[index]\<close> is
  \<open>undefined\<close> beyond the end of the array. \<open>uuids index\<close> is the identifier that
  \<open>randomUUID()\<close> draws for the chunk at \<open>index\<close>, \<open>stamps index\<close> its
  \<open>new Date().toISOString()\<close>.
\<close>

definition chunk_insert ::
  "processedDocument \<Rightarrow> jsstring \<Rightarrow> number list list \<Rightarrow> (nat \<Rightarrow> jsstring) \<Rightarrow>
   nat \<times> jsstring \<Rightarrow> insertDocumentChunk" where
  "chunk_insert processed docId embeddings stamps ic =
     (case ic of (index, chunk) \<Rightarrow>
        \<lparr>documentId = docId,
         chunk_content = chunk,
         embedding = (if index < length embeddings then Some (embeddings ! index) else None),
         metadata = Some \<lparr>fileName = doc_fileName processed,
                          fileId = doc_fileId processed,
                          totalChunks = int (length (doc_chunks processed)),
                          processedAt = stamps index\<rparr>,
         chunkIndex = int index\<rparr>)"

definition store_chunk ::
  "processedDocument \<Rightarrow> jsstring \<Rightarrow> number list list \<Rightarrow> (nat \<Rightarrow> jsstring) \<Rightarrow> (nat \<Rightarrow> jsstring) \<Rightarrow>
   memStorage \<Rightarrow> nat \<times> jsstring \<Rightarrow> memStorage" where
  "store_chunk processed docId embeddings uuids stamps s ic =
     snd (createDocumentChunk s (chunk_insert processed docId embeddings stamps ic)
            (uuids (fst ic)))"

text \<open>
  \<open>indexDocument\<close>, given the outcome of \<open>processDocument(fileId)\<close> and the document
  identifier drawn by \<open>randomUUID()\<close>. A failure of the processing or of the embedding
  call is thrown before anything is stored.
\<close>

definition indexDocument ::
  "providers \<Rightarrow> error + processedDocument \<Rightarrow> memStorage \<Rightarrow> jsstring \<Rightarrow> (nat \<Rightarrow> jsstring) \<Rightarrow>
   (nat \<Rightarrow> jsstring) \<Rightarrow> (error + jsstring \<times> nat) \<times> memStorage" where
  "indexDocument p processing s docId uuids stamps =
     (case processing of
        Inl e \<Rightarrow> (Inl e, s)
      | Inr processed \<Rightarrow>
          (case generateEmbeddings p (doc_chunks processed) of
             Inl e \<Rightarrow> (Inl e, s)
           | Inr embeddings \<Rightarrow>
               (Inr (docId, length (doc_chunks processed)),
                foldl (store_chunk processed docId embeddings uuids stamps) s
                  (enumerate 0 (doc_chunks processed)))))"

definition fallbackMessage :: jsstring where
  "fallbackMessage = js ''I don't have any medical documents indexed yet to answer your question. Please upload medical datasets to Google Drive and index them first, or I can provide general medical information based on my training.''"

text \<open>\<open>chunk.metadata?.fileName || dflt\<close>: the default replaces a missing or empty name.\<close>

definition fileName_or :: "jsstring \<Rightarrow> documentChunk \<Rightarrow> jsstring" where
  "fileName_or dflt chunk =
     (case metadata chunk of
        None \<Rightarrow> dflt
      | Some m \<Rightarrow> if fileName m = [] then dflt else fileName m)"

text \<open>The citation that both query functions build from a retrieved chunk.\<close>

definition citation_of :: "documentChunk \<Rightarrow> citation" where
  "citation_of chunk =
     \<lparr>source = fileName_or (js ''Unknown Source'') chunk,
      excerpt = js_slice (chunk_content chunk) 0 (Some 200) @
                (if length (chunk_content chunk) > 200 then js ''...'' else []),
      confidence = Some (85 / 100),
      page = Some (chunkIndex chunk + 1)\<rparr>"

text \<open>The context string: one labelled block per chunk, joined by a rule.\<close>

definition newline :: jschar where
  "newline = 0x0A"

definition context_block :: "nat \<times> documentChunk \<Rightarrow> jsstring" where
  "context_block ic =
     (case ic of (idx, chunk) \<Rightarrow>
        js ''[Source '' @ decimal (idx + 1) @ js '': '' @ fileName_or (js ''Unknown'') chunk @
        js '']'' @ [newline] @ chunk_content chunk)"

definition build_context :: "documentChunk list \<Rightarrow> jsstring" where
  "build_context relevantChunks =
     join ([newline, newline] @ js ''---'' @ [newline, newline])
       (map context_block (enumerate 0 relevantChunks))"

definition queryRAG ::
  "providers \<Rightarrow> memStorage \<Rightarrow> jsstring \<Rightarrow> (error + rAGResponse) \<times> memStorage" where
  "queryRAG p s question =
     (case generateEmbedding p question of
        Inl e \<Rightarrow> (Inl e, s)
      | Inr questionEmbedding \<Rightarrow>
          (case searchChunksByEmbedding s questionEmbedding 5 of
             (relevantChunks, s') \<Rightarrow>
               if length relevantChunks = 0 then
                 (Inr \<lparr>answer = fallbackMessage, answer_citations = []\<rparr>, s')
               else
                 (case generateChatCompletion p question (build_context relevantChunks) of
                    Inl e \<Rightarrow> (Inl e, s')
                  | Inr text \<Rightarrow>
                      (Inr \<lparr>answer = text,
                            answer_citations = map citation_of relevantChunks\<rparr>, s'))))"

text \<open>
  \<open>queryRAGStream\<close>, run to its end: the events it yields in order, and the error
  that ended it, if any (\<open>None\<close> when the generator returns).
\<close>

definition queryRAGStream ::
  "providers \<Rightarrow> memStorage \<Rightarrow> jsstring \<Rightarrow> (event list \<times> error option) \<times> memStorage" where
  "queryRAGStream p s question =
     (case generateEmbedding p question of
        Inl e \<Rightarrow> (([], Some e), s)
      | Inr questionEmbedding \<Rightarrow>
          (case searchChunksByEmbedding s questionEmbedding 5 of
             (relevantChunks, s') \<Rightarrow>
               (let cites = map citation_of relevantChunks in
                if length relevantChunks = 0 then
                  ((Citations cites # map Token (code_points fallbackMessage), None), s')
                else
                  (case generateChatCompletionStream p question (build_context relevantChunks) of
                     (tokens, failure) \<Rightarrow>
                       ((Citations cites # map Token tokens, failure), s')))))"

text \<open>The store operations, and the store that each of them leaves.\<close>

datatype store_op =
    CreateMessage insertMessage jsstring int
  | GetMessagesByConversation jsstring
  | CreateConversation insertConversation jsstring int
  | GetConversation jsstring
  | UpdateConversation jsstring partialConversation int
  | CreateDocumentChunk insertDocumentChunk jsstring
  | GetDocumentChunks jsstring
  | SearchChunksByEmbedding "number list" int
  | GetAllChunks

fun apply_op :: "memStorage \<Rightarrow> store_op \<Rightarrow> memStorage" where
  "apply_op s (CreateMessage ins uuid now) = snd (createMessage s ins uuid now)"
| "apply_op s (GetMessagesByConversation cid) = snd (getMessagesByConversation s cid)"
| "apply_op s (CreateConversation ins uuid now) = snd (createConversation s ins uuid now)"
| "apply_op s (GetConversation cid) = snd (getConversation s cid)"
| "apply_op s (UpdateConversation cid data now) = snd (updateConversation s cid data now)"
| "apply_op s (CreateDocumentChunk ins uuid) = snd (createDocumentChunk s ins uuid)"
| "apply_op s (GetDocumentChunks did) = snd (getDocumentChunks s did)"
| "apply_op s (SearchChunksByEmbedding q limit) = snd (searchChunksByEmbedding s q limit)"
| "apply_op s GetAllChunks = snd (getAllChunks s)"

section \<open>Notions used to state the properties of \<open>chunkText\<close>\<close>

text \<open>The sentences joined by single spaces, as the loop accumulates them.\<close>

fun join_space :: "jsstring list \<Rightarrow> jsstring" where
  "join_space [] = []"
| "join_space [t] = t"
| "join_space (t # ts) = t @ [space] @ join_space ts"

text \<open>
  The non-empty trimmed pieces of the split, joined by single spaces: the text with every
  separator (terminators and the white space after them) replaced by one space.
\<close>

definition joined_sentences :: "jsstring \<Rightarrow> jsstring" where
  "joined_sentences text = join_space (filter (\<lambda>t. t \<noteq> []) (map trim (split_sentences text)))"

text \<open>A terminator immediately followed by white space occurs somewhere in the string.\<close>

fun has_separator :: "jsstring \<Rightarrow> bool" where
  "has_separator (a # b # s) = ((is_term a \<and> is_ws b) \<or> has_separator (b # s))"
| "has_separator s = False"

text \<open>A non-empty string with no white space at either end.\<close>

definition trimmed :: "jsstring \<Rightarrow> bool" where
  "trimmed t = (t \<noteq> [] \<and> \<not> is_ws (hd t) \<and> \<not> is_ws (last t))"

text \<open>
  A sentence is covered by a loop state when it is a contiguous part of a chunk already
  pushed or of the chunk being accumulated.
\<close>

definition covered :: "jsstring \<Rightarrow> jsstring list \<times> jsstring \<Rightarrow> bool" where
  "covered t st = ((\<exists>c\<in>set (fst st). sublist t c) \<or> sublist t (snd st))"

text \<open>Example texts.\<close>

definition text_two_sentences :: jsstring where
  "text_two_sentences = js ''Take one tablet twice daily. Drink a full glass of water.''"

definition text_padded :: jsstring where
  "text_padded = js ''  Ibuprofen may cause stomach upset when taken without food  ''"

definition text_short_sentences :: jsstring where
  "text_short_sentences = js ''Take with food. Avoid alcohol.''"

definition text_long_sentence :: jsstring where
  "text_long_sentence = js ''Dose. Patients with impaired renal function need a reduced maintenance dose''"

section \<open>Notions used to state the properties of the store and of the service\<close>

text \<open>
  The scored and sorted list that \<open>searchChunksByEmbedding\<close> cuts to its limit, and
  the ranking: its chunks.
\<close>

definition scored :: "number list \<Rightarrow> memStorage \<Rightarrow> (documentChunk \<times> number) list" where
  "scored q s =
     js_sort by_similarity
       (map (\<lambda>chunk. (chunk, similarity_to q chunk))
          (filter has_embedding (map_values (documentChunks s))))"

definition ranking :: "number list \<Rightarrow> memStorage \<Rightarrow> documentChunk list" where
  "ranking q s = map fst (scored q s)"


text \<open>
  The smallest positive double, and the reals that are a whole multiple of it, as every
  double is.
\<close>

definition min_positive :: real where
  "min_positive = 2 powi (- 1074)"

definition on_grid :: "real \<Rightarrow> bool" where
  "on_grid x = (x / min_positive \<in> \<int>)"

fun gridded :: "number \<Rightarrow> bool" where
  "gridded (Num x) = on_grid x"
| "gridded a = True"

text \<open>A score that the comparator orders consistently.\<close>

definition valid_score :: "number \<Rightarrow> bool" where
  "valid_score a = (gridded a \<and> a \<noteq> NaN)"

text \<open>
  The values that a sum of squares can take: zero, a double not below the least positive
  one, the positive infinity, or \<open>NaN\<close>.
\<close>

fun norm_value :: "number \<Rightarrow> bool" where
  "norm_value (Num x) = (x = 0 \<or> min_positive \<le> x)"
| "norm_value PInf = True"
| "norm_value NInf = False"
| "norm_value NaN = True"

text \<open>
  The pairs of document identifier and chunk index of the stored chunks, in the order of
  the map; the indices are unique within each document when no pair occurs twice.
\<close>

definition doc_index_pairs :: "memStorage \<Rightarrow> (jsstring \<times> int) list" where
  "doc_index_pairs s =
     map (\<lambda>chunk. (documentId chunk, chunkIndex chunk)) (map_values (documentChunks s))"

definition unique_chunk_indices :: "memStorage \<Rightarrow> bool" where
  "unique_chunk_indices s = distinct (doc_index_pairs s)"

text \<open>The map entry that \<open>indexDocument\<close> stores for the chunk at an index.\<close>

definition stored_chunk ::
  "processedDocument \<Rightarrow> jsstring \<Rightarrow> number list list \<Rightarrow> (nat \<Rightarrow> jsstring) \<Rightarrow> (nat \<Rightarrow> jsstring) \<Rightarrow>
   nat \<times> jsstring \<Rightarrow> jsstring \<times> documentChunk" where
  "stored_chunk processed docId embeddings uuids stamps ic =
     (uuids (fst ic),
      insertDocumentChunk.extend (chunk_insert processed docId embeddings stamps ic)
        (documentChunk.fields (uuids (fst ic))))"

text \<open>
  An operation is admitted by a store unless it is a \<open>createDocumentChunk\<close> whose pair of
  document identifier and chunk index is already stored.
\<close>

definition admits :: "memStorage \<Rightarrow> store_op \<Rightarrow> bool" where
  "admits s op =
     (case op of
        CreateDocumentChunk ins uuid \<Rightarrow>
          (documentId ins, chunkIndex ins) \<notin> set (doc_index_pairs s)
      | _ \<Rightarrow> True)"

text \<open>
  Example values: a provider that answers every call, a processed document of three
  chunks for which the provider returns two embeddings, and the stores that the
  operations build from the empty store.
\<close>

definition demo_providers :: providers where
  "demo_providers =
     \<lparr>generateEmbedding = (\<lambda>t. Inr [Num 1, Num 0]),
      generateEmbeddings = (\<lambda>ts. Inr (take (length ts) [[Num 0, Num 1], [Num 1, Num 0]])),
      generateChatCompletion = (\<lambda>question context. Inr (js ''Aspirin helps.'')),
      generateChatCompletionStream =
        (\<lambda>question context. ([js ''Aspirin '', js ''helps.''], None))\<rparr>"

definition demo_document :: processedDocument where
  "demo_document =
     \<lparr>doc_fileId = js ''file-1'',
      doc_fileName = js ''guide.txt'',
      doc_chunks = [js ''Aspirin relieves mild to moderate pain and reduces fever in adults'',
                    js ''Store the tablets below 25 degrees in a dry place away from light'',
                    js ''Keep every medicine out of the sight and out of the reach of children'']\<rparr>"

definition demo_uuids :: "nat \<Rightarrow> jsstring" where
  "demo_uuids i = js ''chunk-'' @ decimal i"

definition demo_stamps :: "nat \<Rightarrow> jsstring" where
  "demo_stamps i = js ''2025-01-01T00:00:00.000Z''"

definition demo_store :: memStorage where
  "demo_store =
     snd (indexDocument demo_providers (Inr demo_document) newMemStorage (js ''doc-1'')
            demo_uuids demo_stamps)"

definition demo_question :: jsstring where
  "demo_question = js ''What does aspirin do?''"

definition demo_long_chunk :: documentChunk where
  "demo_long_chunk =
     \<lparr>documentId = js ''doc-2'', chunk_content = replicate 250 0x61, embedding = None,
      metadata = None, chunkIndex = 3, chunk_id = js ''chunk-9''\<rparr>"

definition demo_conversations :: memStorage where
  "demo_conversations =
     snd (createConversation newMemStorage \<lparr>title = Some (js ''Dosage'')\<rparr> (js ''conv-1'') 1000)"

definition demo_rename :: partialConversation where
  "demo_rename =
     \<lparr>new_id = None, new_title = Some (Some (js ''Aspirin'')),
      new_createdAt = None, new_updatedAt = None\<rparr>"

definition demo_messages :: memStorage where
  "demo_messages =
     snd (createMessage demo_conversations
            \<lparr>conversationId = js ''conv-1'', role = js ''user'', content = js ''Hello'',
             citations = None\<rparr> (js ''msg-1'') 1001)"

definition demo_duplicate :: store_op where
  "demo_duplicate =
     CreateDocumentChunk
       \<lparr>documentId = js ''doc-1'', chunk_content = js ''Another first chunk'',
        embedding = None, metadata = None, chunkIndex = 0\<rparr> (js ''chunk-3'')"

definition demo_append :: store_op where
  "demo_append =
     CreateDocumentChunk
       \<lparr>documentId = js ''doc-1'', chunk_content = js ''A fourth chunk'',
        embedding = None, metadata = None, chunkIndex = 3\<rparr> (js ''chunk-3'')"

text \<open>
  Two doubles whose products overflow, a provider that returns them, and the store that
  \<open>indexDocument\<close> builds with it.
\<close>

definition big :: real where
  "big = 2 ^ 500"

definition bigger :: real where
  "bigger = 2 ^ 600"

definition overflow_providers :: providers where
  "overflow_providers =
     \<lparr>generateEmbedding = (\<lambda>t. Inr [Num big, Num 0]),
      generateEmbeddings =
        (\<lambda>ts. Inr (take (length ts) [[Num 0, Num 1], [Num bigger, Num 0], [Num 1, Num 0]])),
      generateChatCompletion = (\<lambda>question context. Inr (js ''Aspirin helps.'')),
      generateChatCompletionStream =
        (\<lambda>question context. ([js ''Aspirin '', js ''helps.''], None))\<rparr>"

definition overflow_store :: memStorage where
  "overflow_store =
     snd (indexDocument overflow_providers (Inr demo_document) newMemStorage (js ''doc-1'')
            demo_uuids demo_stamps)"


text \<open>
  Two embeddings that point the same way as the query \<open>[1, 0, 1]\<close>: their scores are
  equal in exact arithmetic and differ in double precision.
\<close>

definition parallel_providers :: providers where
  "parallel_providers =
     \<lparr>generateEmbedding = (\<lambda>t. Inr [Num 1, Num 0, Num 1]),
      generateEmbeddings =
        (\<lambda>ts. Inr (take (length ts) [[Num 1, Num 0, Num 1], [Num 3, Num 0, Num 3]])),
      generateChatCompletion = (\<lambda>question context. Inr (js ''Aspirin helps.'')),
      generateChatCompletionStream =
        (\<lambda>question context. ([js ''Aspirin '', js ''helps.''], None))\<rparr>"

definition parallel_store :: memStorage where
  "parallel_store =
     snd (indexDocument parallel_providers (Inr demo_document) newMemStorage (js ''doc-1'')
            demo_uuids demo_stamps)"

section \<open>Properties of \<open>chunkText\<close>\<close>

lemma length_trim_le: "length (trim s) \<le> length s"
proof -
  have "length (trim s) \<le> length (dropWhile is_ws s)"
    unfolding trim_def using length_dropWhile_le [of is_ws "rev (dropWhile is_ws s)"] by simp
  also have "\<dots> \<le> length s" by (rule length_dropWhile_le)
  finally show ?thesis .
qed

lemma last_dropWhile: "dropWhile P xs \<noteq> [] \<Longrightarrow> last (dropWhile P xs) = last xs"
  by (induction xs) (auto split: if_splits)

lemma dropWhile_rev_last: "xs \<noteq> [] \<Longrightarrow> \<not> P (last xs) \<Longrightarrow> dropWhile P (rev xs) = rev xs"
  by (cases xs rule: rev_cases) auto

lemma dropWhile_hd: "xs \<noteq> [] \<Longrightarrow> \<not> P (hd xs) \<Longrightarrow> dropWhile P xs = xs"
  by (cases xs) auto

lemma trimmed_trim: "trim s \<noteq> [] \<Longrightarrow> trimmed (trim s)"
proof -
  assume ne: "trim s \<noteq> []"
  let ?d = "dropWhile is_ws s"
  let ?r = "dropWhile is_ws (rev ?d)"
  from ne have r: "?r \<noteq> []" by (simp add: trim_def)
  then have "\<not> is_ws (hd ?r)" by (rule hd_dropWhile)
  then have l: "\<not> is_ws (last (trim s))" using r by (simp add: trim_def last_rev)
  have d: "?d \<noteq> []"
  proof
    assume "?d = []"
    then have "?r = []" by (simp only: rev.simps dropWhile.simps)
    with r show False ..
  qed
  then have hd: "\<not> is_ws (hd ?d)" by (rule hd_dropWhile)
  have "hd (trim s) = last ?r" using r by (simp add: trim_def hd_rev)
  also have "\<dots> = last (rev ?d)" using r by (rule last_dropWhile)
  also have "\<dots> = hd ?d" using d by (simp add: last_rev)
  finally show ?thesis using hd l ne by (simp add: trimmed_def)
qed

lemma trim_id: "trimmed t \<Longrightarrow> trim t = t"
  by (simp add: trimmed_def trim_def dropWhile_hd dropWhile_rev_last)

lemma match_sep_length: "match_sep s = Some r \<Longrightarrow> length r + 2 \<le> length s"
proof (cases s)
  case Nil
  assume "match_sep s = Some r" with Nil show ?thesis by simp
next
  case (Cons c cs)
  assume "match_sep s = Some r"
  with Cons obtain w ws where "dropWhile is_term cs = w # ws" and "r = dropWhile is_ws ws"
    by (auto split: if_splits list.splits)
  then have "length r \<le> length ws" and "length (w # ws) \<le> length cs"
    using length_dropWhile_le [of is_ws ws] length_dropWhile_le [of is_term cs] by simp_all
  with Cons show ?thesis by simp
qed

lemma split_loop_size:
  "(\<Sum>p\<leftarrow>split_loop piece s. length p + 1) \<le> length piece + length s + 1"
proof (induction piece s rule: split_loop.induct)
  case (1 piece)
  then show ?case by simp
next
  case (2 piece c cs)
  show ?case
  proof (cases "match_sep (c # cs)")
    case None
    with 2 show ?thesis by simp
  next
    case (Some rest)
    with 2 have "(\<Sum>p\<leftarrow>split_loop [] rest. length p + 1) \<le> length rest + 1" by simp
    moreover from Some have "length rest + 2 \<le> length (c # cs)" by (rule match_sep_length)
    ultimately show ?thesis using Some by simp
  qed
qed

lemma match_sep_has_separator: "match_sep (c # cs) = Some r \<Longrightarrow> has_separator (c # cs)"
proof (induction cs arbitrary: c)
  case Nil
  then show ?case by (simp split: if_splits)
next
  case (Cons d ds)
  show ?case
  proof (cases "is_term d")
    case True
    with Cons.prems have "match_sep (d # ds) = Some r" by (simp split: if_splits)
    then have "has_separator (d # ds)" by (rule Cons.IH)
    then show ?thesis by simp
  next
    case False
    with Cons.prems show ?thesis by (simp split: if_splits)
  qed
qed

lemma has_separator_tl: "\<not> has_separator (c # cs) \<Longrightarrow> \<not> has_separator cs"
  by (cases cs) auto

lemma split_loop_no_separator: "\<not> has_separator s \<Longrightarrow> split_loop piece s = [piece @ s]"
proof (induction s arbitrary: piece)
  case Nil
  then show ?case by simp
next
  case (Cons c cs)
  from Cons.prems have "match_sep (c # cs) = None"
    using match_sep_has_separator [of c cs] by (cases "match_sep (c # cs)") auto
  moreover from Cons.prems have "\<not> has_separator cs" by (rule has_separator_tl)
  ultimately show ?case using Cons.IH [of "piece @ [c]"] by simp
qed

lemma trimmed_append: "trimmed a \<Longrightarrow> trimmed b \<Longrightarrow> trimmed (a @ x @ b)"
  by (simp add: trimmed_def)

lemma join_space_merge: "join_space ((a @ space # b) # rest) = a @ space # join_space (b # rest)"
  by (cases rest) simp_all

lemma sum_list_len_nonneg: "0 \<le> (\<Sum>s\<leftarrow>ss. int (length s) + 1)"
  by (rule sum_list_nonneg) auto

lemma foldl_chunk_step_fits:
  "int (length cur) + (\<Sum>s\<leftarrow>ss. int (length s) + 1) \<le> chunkSize + 1 \<Longrightarrow> (cur = [] \<or> trimmed cur) \<Longrightarrow>
   foldl (chunk_step chunkSize overlap) (chunks, cur) ss =
     (chunks, join_space ((if cur = [] then [] else [cur]) @ filter (\<lambda>t. t \<noteq> []) (map trim ss)))"
proof (induction ss arbitrary: cur)
  case Nil
  then show ?case by simp
next
  case (Cons s ss)
  let ?t = "trim s"
  have nn: "0 \<le> (\<Sum>s\<leftarrow>ss. int (length s) + 1)" by (rule sum_list_len_nonneg)
  show ?case
  proof (cases "?t = []")
    case True
    from Cons.prems nn have "int (length cur) + (\<Sum>s\<leftarrow>ss. int (length s) + 1) \<le> chunkSize + 1"
      by simp
    from Cons.IH [OF this Cons.prems(2)] True show ?thesis by simp
  next
    case False
    then have tt: "trimmed ?t" by (rule trimmed_trim)
    have le: "length ?t \<le> length s" by (rule length_trim_le)
    let ?cur' = "cur @ (if cur \<noteq> [] then [space] else []) @ ?t"
    from Cons.prems(1) nn le have fits: "\<not> int (length cur) + int (length ?t) > chunkSize"
      by simp
    have step: "chunk_step chunkSize overlap (chunks, cur) s = (chunks, ?cur')"
      using False fits by (simp add: Let_def)
    from Cons.prems(1) le have p1: "int (length ?cur') + (\<Sum>s\<leftarrow>ss. int (length s) + 1) \<le> chunkSize + 1"
      by simp
    from Cons.prems(2) tt have p2: "?cur' = [] \<or> trimmed ?cur'"
      by (auto simp: trimmed_def)
    have ne: "?cur' \<noteq> []" using False by simp
    have "foldl (chunk_step chunkSize overlap) (chunks, cur) (s # ss) =
          foldl (chunk_step chunkSize overlap) (chunks, ?cur') ss"
      using step by simp
    also have "\<dots> = (chunks, join_space ([?cur'] @ filter (\<lambda>t. t \<noteq> []) (map trim ss)))"
      using Cons.IH [OF p1 p2] ne by simp
    also have "join_space ([?cur'] @ filter (\<lambda>t. t \<noteq> []) (map trim ss)) =
        join_space ((if cur = [] then [] else [cur]) @ filter (\<lambda>t. t \<noteq> []) (map trim (s # ss)))"
      using False by (simp add: join_space_merge)
    finally show ?thesis .
  qed
qed

lemma trimmed_join_space: "ts \<noteq> [] \<Longrightarrow> \<forall>t\<in>set ts. trimmed t \<Longrightarrow> trimmed (join_space ts)"
  by (induction ts rule: join_space.induct) (auto simp: trimmed_def)

lemma trim_joined_sentences: "trim (joined_sentences text) = joined_sentences text"
proof (cases "filter (\<lambda>t. t \<noteq> []) (map trim (split_sentences text)) = []")
  case True
  then show ?thesis by (simp add: joined_sentences_def trim_def)
next
  case False
  have "\<forall>t\<in>set (filter (\<lambda>t. t \<noteq> []) (map trim (split_sentences text))). trimmed t"
    by (auto simp: trimmed_trim)
  with False have "trimmed (joined_sentences text)"
    unfolding joined_sentences_def by (rule trimmed_join_space)
  then show ?thesis by (rule trim_id)
qed

lemma int_sum_len: "int (\<Sum>p\<leftarrow>ps. length p + 1) = (\<Sum>p\<leftarrow>ps. int (length p) + 1)"
  by (induction ps) simp_all

lemma chunk_scan_short:
  assumes "int (length text) < chunkSize"
  shows "chunk_scan text chunkSize overlap =
     (if joined_sentences text \<noteq> [] then [joined_sentences text] else [])"
proof -
  have "(\<Sum>p\<leftarrow>split_sentences text. length p + 1) \<le> length text + 1"
    using split_loop_size [of "[]" "text"] by (simp add: split_sentences_def)
  then have "int (\<Sum>p\<leftarrow>split_sentences text. length p + 1) \<le> int (length text) + 1"
    by linarith
  moreover have "int (\<Sum>p\<leftarrow>split_sentences text. length p + 1) = (\<Sum>p\<leftarrow>split_sentences text. int (length p) + 1)"
    by (rule int_sum_len)
  ultimately have "int (length ([]::jsstring)) + (\<Sum>s\<leftarrow>split_sentences text. int (length s) + 1) \<le> chunkSize + 1"
    using assms by simp
  then have "foldl (chunk_step chunkSize overlap) ([], []) (split_sentences text) = ([], joined_sentences text)"
    using foldl_chunk_step_fits [of "[]" "split_sentences text" chunkSize overlap "[]"]
    by (simp add: joined_sentences_def)
  then show ?thesis
    by (simp add: chunk_scan_def trim_joined_sentences)
qed

text \<open>
  C1, as the code has it. A text shorter than \<open>chunkSize\<close> never overflows the running
  chunk, so \<open>chunkText\<close> returns at most one chunk: the non-empty trimmed sentences joined
  by single spaces, when that string is longer than 50 code units, and no chunk otherwise.
  The separators themselves (terminators and the white space after them) are not part of
  it. When the text holds no terminator followed by white space, the joined string is the
  trimmed text, and the result is the trimmed text if it is longer than 50 and no chunk
  otherwise.
\<close>

theorem chunkText_short:
  assumes "int (length text) < chunkSize"
  shows "chunkText text chunkSize overlap =
           (if length (joined_sentences text) > 50 then [joined_sentences text] else []) \<and>
         (\<not> has_separator text \<longrightarrow>
            chunkText text chunkSize overlap = (if length (trim text) > 50 then [trim text] else []))"
proof -
  have a: "chunkText text chunkSize overlap =
           (if length (joined_sentences text) > 50 then [joined_sentences text] else [])"
    using chunk_scan_short [OF assms] by (auto simp: chunkText_def)
  have "joined_sentences text = trim text" if "\<not> has_separator text"
    using split_loop_no_separator [OF that, of "[]"]
    by (simp add: joined_sentences_def split_sentences_def)
  with a show ?thesis by simp
qed

text \<open>
  C1 as stated fails on a text of two sentences: the text has 57 code units, its chunk has
  56, because the split removed the full stop between the sentences.
\<close>

theorem chunkText_short_counterexample:
  "int (length text_two_sentences) < 1000 \<and> 50 < length (trim text_two_sentences) \<and>
   chunkText text_two_sentences 1000 200 = [js ''Take one tablet twice daily Drink a full glass of water.''] \<and>
   chunkText text_two_sentences 1000 200 \<noteq> [trim text_two_sentences]"
  by (simp add: text_two_sentences_def chunkText_def chunk_scan_def split_sentences_def js_def is_ws_def is_term_def trim_def
      space_def Let_def)

theorem chunkText_short_witness:
  "int (length text_padded) < 1000 \<and> \<not> has_separator text_padded \<and>
   chunkText text_padded 1000 200 = [js ''Ibuprofen may cause stomach upset when taken without food'']"
proof -
  have 1: "int (length text_padded) < 1000" by (simp add: text_padded_def js_def)
  have 2: "\<not> has_separator text_padded" by (simp add: text_padded_def js_def is_ws_def is_term_def)
  have 3: "trim text_padded = js ''Ibuprofen may cause stomach upset when taken without food''"
    by (simp add: text_padded_def js_def trim_def is_ws_def)
  have 4: "50 < length (js ''Ibuprofen may cause stomach upset when taken without food'')"
    by (simp add: js_def)
  from chunkText_short [OF 1, of 200]
  have "\<not> has_separator text_padded \<longrightarrow>
          chunkText text_padded 1000 200 = (if length (trim text_padded) > 50 then [trim text_padded] else [])"
    by (rule conjunct2)
  with 2 3 4 have 5: "chunkText text_padded 1000 200 =
      [js ''Ibuprofen may cause stomach upset when taken without food'']"
    by simp
  from 1 2 5 show ?thesis by (intro conjI)
qed


lemma dropWhile_keeps_infix:
  "t \<noteq> [] \<Longrightarrow> \<not> P (hd t) \<Longrightarrow> \<exists>ps'. dropWhile P (ps @ t @ ss) = ps' @ t @ ss"
proof (induction ps)
  case Nil
  then have "dropWhile P (t @ ss) = t @ ss" by (cases t) auto
  then show ?case by (intro exI [of _ "[]"]) simp
next
  case (Cons p ps)
  show ?case
  proof (cases "P p")
    case True
    with Cons show ?thesis by simp
  next
    case False
    then show ?thesis by (intro exI [of _ "p # ps"]) simp
  qed
qed

lemma sublist_trim:
  assumes "trimmed t" and "sublist t s"
  shows "sublist t (trim s)"
proof -
  from assms(2) obtain ps ss where s: "s = ps @ t @ ss" by (auto simp: sublist_def)
  from assms(1) have t: "t \<noteq> []" "\<not> is_ws (hd t)" "\<not> is_ws (last t)"
    by (simp_all add: trimmed_def)
  from dropWhile_keeps_infix [where P = is_ws, OF t(1) t(2)] obtain ps' where
    1: "dropWhile is_ws (ps @ t @ ss) = ps' @ t @ ss" by blast
  from t have "rev t \<noteq> []" "\<not> is_ws (hd (rev t))" by (simp_all add: hd_rev)
  from dropWhile_keeps_infix [where P = is_ws, OF this] obtain qs where
    2: "dropWhile is_ws (rev ss @ rev t @ rev ps') = qs @ rev t @ rev ps'" by blast
  have "trim s = ps' @ t @ rev qs"
    using 1 2 by (simp add: trim_def s)
  then show ?thesis by (simp add: sublist_def) blast
qed

lemma sublist_app_right: "sublist t a \<Longrightarrow> sublist t (a @ b)"
proof -
  assume "sublist t a"
  then obtain ps ss where "a = ps @ t @ ss" by (auto simp: sublist_def)
  then have "a @ b = ps @ t @ (ss @ b)" by simp
  then show ?thesis unfolding sublist_def by blast
qed

lemma sublist_after_sep: "sublist t (a @ c # t)"
  unfolding sublist_def by (rule exI [of _ "a @ [c]"], rule exI [of _ "[]"]) simp

lemma chunk_step_covers_new:
  "trim s \<noteq> [] \<Longrightarrow> covered (trim s) (chunk_step chunkSize overlap st s)"
  by (cases st) (auto simp: covered_def Let_def sublist_after_sep)

lemma chunk_step_keeps:
  assumes "trimmed t" and "covered t st"
  shows "covered t (chunk_step chunkSize overlap st s)"
proof (cases st)
  case (Pair chunks cur)
  from assms(2) Pair consider "\<exists>c\<in>set chunks. sublist t c" | "sublist t cur"
    by (auto simp: covered_def)
  then show ?thesis
  proof cases
    case 1
    with Pair show ?thesis by (auto simp: covered_def Let_def)
  next
    case 2
    then have "sublist t (trim cur)" using assms(1) by (simp add: sublist_trim)
    moreover from 2 have "sublist t (cur @ x)" for x by (rule sublist_app_right)
    ultimately show ?thesis using Pair 2 by (auto simp: covered_def Let_def)
  qed
qed

lemma foldl_chunk_step_keeps:
  "trimmed t \<Longrightarrow> covered t st \<Longrightarrow> covered t (foldl (chunk_step chunkSize overlap) st ss)"
  by (induction ss arbitrary: st) (simp_all add: chunk_step_keeps)

lemma foldl_chunk_step_covers:
  "s \<in> set ss \<Longrightarrow> trim s \<noteq> [] \<Longrightarrow>
   covered (trim s) (foldl (chunk_step chunkSize overlap) st ss)"
proof (induction ss arbitrary: st)
  case Nil
  then show ?case by simp
next
  case (Cons a ss)
  show ?case
  proof (cases "s = a")
    case True
    with Cons.prems(2) have "covered (trim s) (chunk_step chunkSize overlap st a)"
      by (simp add: chunk_step_covers_new)
    with Cons.prems(2) show ?thesis
      by (simp add: foldl_chunk_step_keeps trimmed_trim)
  next
    case False
    with Cons show ?thesis by simp
  qed
qed

lemma chunk_scan_covers:
  assumes "s \<in> set (split_sentences text)" and "trim s \<noteq> []"
  shows "\<exists>c\<in>set (chunk_scan text chunkSize overlap). sublist (trim s) c"
proof -
  obtain chunks cur where
    st: "foldl (chunk_step chunkSize overlap) ([], []) (split_sentences text) = (chunks, cur)"
    by (cases "foldl (chunk_step chunkSize overlap) ([], []) (split_sentences text)")
  from assms have "covered (trim s) (chunks, cur)"
    using foldl_chunk_step_covers [of s "split_sentences text" chunkSize overlap "([], [])"]
    by (simp add: st)
  then consider "\<exists>c\<in>set chunks. sublist (trim s) c" | "sublist (trim s) cur"
    by (auto simp: covered_def)
  then show ?thesis
  proof cases
    case 1
    then show ?thesis by (auto simp: chunk_scan_def st)
  next
    case 2
    with assms(2) have sub: "sublist (trim s) (trim cur)"
      by (simp add: sublist_trim trimmed_trim)
    with assms(2) have "trim cur \<noteq> []" by auto
    with sub show ?thesis by (auto simp: chunk_scan_def st)
  qed
qed

text \<open>
  C5, as the code has it. Every non-empty trimmed sentence of the split is a contiguous
  part of some chunk collected by the scan; the result keeps the collected chunks of more
  than 50 code units, so every sentence of more than 50 code units is a contiguous part
  of some returned chunk. A shorter sentence is returned only if a chunk of more than 50
  code units holds it.
\<close>

theorem chunkText_sentence_coverage:
  "\<forall>s\<in>set (split_sentences text). trim s \<noteq> [] \<longrightarrow>
     (\<exists>c\<in>set (chunk_scan text chunkSize overlap). sublist (trim s) c) \<and>
     (50 < length (trim s) \<longrightarrow> (\<exists>c\<in>set (chunkText text chunkSize overlap). sublist (trim s) c))"
proof (intro ballI impI conjI)
  fix s
  assume s: "s \<in> set (split_sentences text)" and ne: "trim s \<noteq> []"
  then show "\<exists>c\<in>set (chunk_scan text chunkSize overlap). sublist (trim s) c"
    by (rule chunk_scan_covers)
  then obtain c where c: "c \<in> set (chunk_scan text chunkSize overlap)" "sublist (trim s) c"
    by blast
  assume "50 < length (trim s)"
  with c(2) have "50 < length c" using sublist_length_le [of "trim s" c] by simp
  with c show "\<exists>c\<in>set (chunkText text chunkSize overlap). sublist (trim s) c"
    by (auto simp: chunkText_def)
qed

text \<open>
  C5 as stated fails on a text of two short sentences: their only chunk has 29 code units
  and is filtered out, so both sentences are absent from the result.
\<close>

theorem chunkText_sentence_coverage_counterexample:
  "split_sentences text_short_sentences = [js ''Take with food'', js ''Avoid alcohol.''] \<and>
   chunkText text_short_sentences 1000 200 = []"
  by (simp add: text_short_sentences_def chunkText_def chunk_scan_def split_sentences_def js_def is_ws_def is_term_def trim_def
      space_def Let_def)

theorem chunkText_sentence_coverage_witness:
  "js ''Patients with impaired renal function need a reduced maintenance dose'' \<in> set (split_sentences text_long_sentence) \<and>
   (\<exists>c\<in>set (chunkText text_long_sentence 1000 200). sublist (js ''Patients with impaired renal function need a reduced maintenance dose'') c)"
proof -
  let ?s = "js ''Patients with impaired renal function need a reduced maintenance dose''"
  have 1: "?s \<in> set (split_sentences text_long_sentence)"
    by (simp add: text_long_sentence_def split_sentences_def js_def is_ws_def is_term_def)
  have 2: "trim ?s = ?s" by (simp add: js_def trim_def is_ws_def)
  have 3: "50 < length ?s" by (simp add: js_def)
  from chunkText_sentence_coverage [of text_long_sentence 1000 200] 1
  have "trim ?s \<noteq> [] \<longrightarrow>
     (\<exists>c\<in>set (chunk_scan text_long_sentence 1000 200). sublist (trim ?s) c) \<and>
     (50 < length (trim ?s) \<longrightarrow> (\<exists>c\<in>set (chunkText text_long_sentence 1000 200). sublist (trim ?s) c))"
    by (rule bspec)
  with 2 3 have "\<exists>c\<in>set (chunkText text_long_sentence 1000 200). sublist ?s c" by auto
  with 1 show ?thesis by (intro conjI)
qed


section \<open>Properties of double arithmetic\<close>

lemma round_even_int [simp]: "round_even (of_int n) = n"
  by (simp add: round_even_def)

lemma round_even_zero [simp]: "round_even 0 = 0"
  using round_even_int [of 0] by simp

lemma round_even_bracket:
  assumes "of_int n - 1 / 2 < r" and "r < of_int n + 1 / 2"
  shows "round_even r = n"
proof (cases "of_int n \<le> r")
  case True
  with assms have "\<lfloor>r\<rfloor> = n" by (intro floor_unique) auto
  with assms show ?thesis by (simp add: round_even_def)
next
  case False
  with assms have "\<lfloor>r\<rfloor> = n - 1" by (intro floor_unique) auto
  with assms False show ?thesis by (simp add: round_even_def)
qed

lemma two_powr_int: "(2::real) powr of_int k = 2 powi k"
  by (rule powr_real_of_int') simp_all

lemma floor_log2:
  assumes "2 powi e \<le> x" and "x < 2 powi (e + 1)"
  shows "\<lfloor>log 2 x\<rfloor> = e"
proof -
  have "0 < (2::real) powi e" by simp
  with assms(1) have pos: "0 < x" by linarith
  have "2 powr of_int e \<le> x \<and> x < 2 powr (of_int e + 1)"
    using assms two_powr_int [of e] two_powr_int [of "e + 1"] by simp
  with pos show ?thesis by (simp add: floor_log_eq_powr_iff)
qed

lemma floor_log2_bounds:
  assumes "0 < x"
  shows "2 powi \<lfloor>log 2 x\<rfloor> \<le> x" and "x < 2 powi (\<lfloor>log 2 x\<rfloor> + 1)"
proof -
  from assms have "2 powr of_int \<lfloor>log 2 x\<rfloor> \<le> x \<and> x < 2 powr (of_int \<lfloor>log 2 x\<rfloor> + 1)"
    using floor_log_eq_powr_iff [of x 2 "\<lfloor>log 2 x\<rfloor>"] by simp
  then show "2 powi \<lfloor>log 2 x\<rfloor> \<le> x" and "x < 2 powi (\<lfloor>log 2 x\<rfloor> + 1)"
    using two_powr_int [of "\<lfloor>log 2 x\<rfloor>"] two_powr_int [of "\<lfloor>log 2 x\<rfloor> + 1"] by simp_all
qed

lemma ulp_exponent_eq:
  "2 powi e \<le> \<bar>x\<bar> \<Longrightarrow> \<bar>x\<bar> < 2 powi (e + 1) \<Longrightarrow> ulp_exponent x = max e (- 1022) - 52"
  by (simp add: ulp_exponent_def floor_log2)

lemma ulp_exponent_ge: "- 1074 \<le> ulp_exponent x"
  by (simp add: ulp_exponent_def)

lemma rnd_zero [simp]: "rnd 0 = Num 0"
  by (simp add: rnd_def)

lemma powi_less_cancel: "(2::real) powi a < 2 powi b \<Longrightarrow> a < b"
proof (rule ccontr)
  assume lt: "(2::real) powi a < 2 powi b" and "\<not> a < b"
  then have "b \<le> a" by simp
  then have "(2::real) powi b \<le> 2 powi a" by (rule power_int_increasing) simp
  with lt show False by simp
qed

lemma rnd_scaled_int:
  assumes u: "ulp_exponent x \<le> k" and x: "x = of_int m * 2 powi k"
  shows "rnd x = (if 2 ^ 1024 \<le> x then PInf else if x \<le> - (2 ^ 1024) then NInf else Num x)"
proof -
  let ?u = "ulp_exponent x"
  have "x / 2 powi ?u = of_int m * (2 powi k / 2 powi ?u)" by (simp add: x)
  also have "2 powi k / 2 powi ?u = (2::real) powi (k - ?u)"
    by (simp add: power_int_diff)
  also have "\<dots> = 2 ^ nat (k - ?u)" using u by (simp add: power_int_def)
  finally have q: "x / 2 powi ?u = of_int (m * 2 ^ nat (k - ?u))" by simp
  have "of_int (round_even (x / 2 powi ?u)) * 2 powi ?u = (x / 2 powi ?u) * 2 powi ?u"
    by (simp only: q round_even_int)
  also have "\<dots> = x" by simp
  finally show ?thesis by (simp add: rnd_def Let_def)
qed

lemma ulp_exponent_le:
  assumes "x = of_int m * 2 powi k" and "\<bar>m\<bar> < 2 ^ 53" and "- 1074 \<le> k" and "m \<noteq> 0"
  shows "ulp_exponent x \<le> k"
proof -
  let ?e = "\<lfloor>log 2 \<bar>x\<bar>\<rfloor>"
  have ax: "\<bar>x\<bar> = of_int \<bar>m\<bar> * 2 powi k" by (simp add: assms(1) abs_mult)
  with assms(4) have pos: "0 < \<bar>x\<bar>" by simp
  have "2 powi ?e \<le> \<bar>x\<bar>" using pos by (rule floor_log2_bounds)
  also have "\<bar>x\<bar> < 2 ^ 53 * 2 powi k"
  proof -
    have "real_of_int \<bar>m\<bar> < 2 ^ 53" using assms(2) by (metis of_int_less_numeral_power_cancel_iff)
    then show ?thesis unfolding ax by (intro mult_strict_right_mono) simp_all
  qed
  also have "\<dots> = 2 powi (53 + k)" by (simp add: power_int_add)
  finally have "?e < 53 + k" by (rule powi_less_cancel)
  with assms(3) show ?thesis by (simp add: ulp_exponent_def)
qed

lemma rnd_exact:
  assumes "x = of_int m * 2 powi k" and "\<bar>m\<bar> < 2 ^ 53" and "- 1074 \<le> k" and "\<bar>x\<bar> < 2 ^ 1024"
  shows "rnd x = Num x"
proof (cases "m = 0")
  case True
  with assms(1) show ?thesis by simp
next
  case False
  with assms have "ulp_exponent x \<le> k" by (intro ulp_exponent_le)
  from rnd_scaled_int [OF this assms(1)] assms(4) show ?thesis by (simp add: abs_less_iff)
qed

lemma rnd_bracket:
  assumes "2 powi e \<le> \<bar>x\<bar>" and "\<bar>x\<bar> < 2 powi (e + 1)"
    and "u = max e (- 1022) - 52"
    and "of_int n - 1 / 2 < x / 2 powi u" and "x / 2 powi u < of_int n + 1 / 2"
    and "\<bar>of_int n * 2 powi u\<bar> < (2::real) ^ 1024"
  shows "rnd x = Num (of_int n * 2 powi u)"
proof -
  have "ulp_exponent x = u" using assms(1-3) by (simp add: ulp_exponent_eq)
  moreover have "round_even (x / 2 powi u) = n" using assms(4,5) by (rule round_even_bracket)
  ultimately show ?thesis using assms(6) by (simp add: rnd_def Let_def abs_less_iff)
qed

lemma rnd_of_int: "\<bar>m\<bar> < 2 ^ 53 \<Longrightarrow> rnd (of_int m) = Num (of_int m)"
proof -
  assume m: "\<bar>m\<bar> < 2 ^ 53"
  then have "real_of_int \<bar>m\<bar> < 2 ^ 53" by (metis of_int_less_numeral_power_cancel_iff)
  also have "\<dots> < (2::real) ^ 1024" by (rule power_strict_increasing) simp_all
  finally have "\<bar>real_of_int m\<bar> < 2 ^ 1024" by simp
  with m show ?thesis by (intro rnd_exact [of _ m 0]) simp_all
qed

lemma rnd_numeral [simp]:
  "numeral w < (2::int) ^ 53 \<Longrightarrow> rnd (numeral w) = Num (numeral w)"
  using rnd_of_int [of "numeral w"] by simp

lemma rnd_one [simp]: "rnd 1 = Num 1"
  using rnd_of_int [of 1] by simp







lemma min_positive_pos: "0 < min_positive"
  by (simp add: min_positive_def)

lemma on_grid_0 [simp]: "on_grid 0"
  by (simp add: on_grid_def)

lemma powi_over_min_positive:
  assumes "- 1074 \<le> u"
  shows "2 powi u / min_positive = 2 ^ nat (u + 1074)"
proof -
  have "2 powi u / min_positive = (2::real) powi (u - (- 1074))"
    unfolding min_positive_def by (rule power_int_diff [symmetric]) simp
  also have "\<dots> = 2 ^ nat (u + 1074)" using assms by (simp add: power_int_def)
  finally show ?thesis .
qed

lemma rnd_value_on_grid:
  "on_grid (of_int (round_even (x / 2 powi ulp_exponent x)) * 2 powi ulp_exponent x)"
proof -
  let ?u = "ulp_exponent x" and ?m = "round_even (x / 2 powi ulp_exponent x)"
  have "- 1074 \<le> ?u" by (rule ulp_exponent_ge)
  then have "2 powi ?u / min_positive = 2 ^ nat (?u + 1074)"
    by (rule powi_over_min_positive)
  then have "of_int ?m * (2 powi ?u / min_positive) = of_int ?m * 2 ^ nat (?u + 1074)"
    by (simp only:)
  then have "of_int ?m * 2 powi ?u / min_positive = of_int (?m * 2 ^ nat (?u + 1074))"
    by simp
  then show ?thesis unfolding on_grid_def by (simp only: Ints_of_int)
qed

lemma gridded_rnd [simp]: "gridded (rnd x)"
  using rnd_value_on_grid [of x] by (simp add: rnd_def Let_def)

lemma round_even_ge_1: "1 \<le> r \<Longrightarrow> 1 \<le> round_even r"
proof -
  assume "1 \<le> r"
  then have "1 \<le> \<lfloor>r\<rfloor>" by simp
  then show ?thesis by (simp add: round_even_def Let_def)
qed

lemma round_even_le_0: "r \<le> 0 \<Longrightarrow> round_even r \<le> 0"
proof -
  assume r: "r \<le> 0"
  then have f: "\<lfloor>r\<rfloor> \<le> 0" by simp
  show ?thesis
  proof (cases "\<lfloor>r\<rfloor> = 0")
    case True
    then have "0 \<le> r" by (metis of_int_0 of_int_floor_le)
    with r have "r = 0" by simp
    then show ?thesis by simp
  next
    case False
    with f have "\<lfloor>r\<rfloor> + 1 \<le> 0" by linarith
    with f show ?thesis unfolding round_even_def Let_def by (auto split: if_splits)
  qed
qed

lemma positive_rnd:
  assumes "min_positive \<le> d"
  shows "positive (rnd d)"
proof -
  from assms min_positive_pos have pos: "0 < d" by linarith
  let ?e = "\<lfloor>log 2 d\<rfloor>" and ?u = "ulp_exponent d"
  have e: "2 powi ?e \<le> d" using pos by (rule floor_log2_bounds)
  have "2 powi ?u \<le> d"
  proof (cases "- 1022 \<le> ?e")
    case True
    then have "?u = ?e - 52" using pos by (simp add: ulp_exponent_def)
    then have "(2::real) powi ?u \<le> 2 powi ?e" by (simp add: power_int_increasing)
    with e show ?thesis by simp
  next
    case False
    then have "?u = - 1074" using pos by (simp add: ulp_exponent_def)
    with assms show ?thesis by (simp add: min_positive_def)
  qed
  then have "1 \<le> d / 2 powi ?u" by (simp add: field_simps)
  then have "1 \<le> round_even (d / 2 powi ?u)" by (rule round_even_ge_1)
  then have "0 < real_of_int (round_even (d / 2 powi ?u)) * 2 powi ?u" by simp
  then show ?thesis by (simp add: rnd_def Let_def not_le [symmetric] less_imp_le)
qed

lemma not_positive_rnd:
  assumes "d \<le> 0"
  shows "\<not> positive (rnd d)"
proof -
  let ?u = "ulp_exponent d"
  from assms have "d / 2 powi ?u \<le> 0" by (simp add: divide_le_0_iff)
  then have "round_even (d / 2 powi ?u) \<le> 0" by (rule round_even_le_0)
  then have "real_of_int (round_even (d / 2 powi ?u)) * 2 powi ?u \<le> 0"
    by (simp add: mult_le_0_iff)
  then show ?thesis by (auto simp: rnd_def Let_def)
qed

lemma grid_gap:
  assumes "on_grid x" and "on_grid y" and "x < y"
  shows "min_positive \<le> y - x"
proof -
  from assms(1) obtain a :: int where a: "x / min_positive = of_int a"
    unfolding on_grid_def by (rule Ints_cases)
  from assms(2) obtain b :: int where b: "y / min_positive = of_int b"
    unfolding on_grid_def by (rule Ints_cases)
  from assms(3) min_positive_pos have "x / min_positive < y / min_positive"
    by (simp add: divide_strict_right_mono)
  then have "a < b" unfolding a b by simp
  then have "1 \<le> real_of_int b - real_of_int a" by linarith
  then have "1 \<le> (y - x) / min_positive" by (simp add: a b diff_divide_distrib)
  with min_positive_pos show ?thesis by (simp add: field_simps)
qed

lemma positive_fsub:
  assumes "gridded a" and "gridded b" and "a \<noteq> NaN" and "b \<noteq> NaN"
  shows "positive (fsub b a) = fless a b"
proof (cases a; cases b)
  fix x y assume ab: "a = Num x" "b = Num y"
  with assms have g: "on_grid x" "on_grid y" by simp_all
  show ?thesis
  proof (cases "x < y")
    case True
    with g have "min_positive \<le> y - x" by (intro grid_gap)
    then have "positive (rnd (y + - x))" using positive_rnd [of "y - x"] by simp
    with True ab show ?thesis by (simp add: fsub_def)
  next
    case False
    then have "y - x \<le> 0" by simp
    then have "\<not> positive (rnd (y + - x))" using not_positive_rnd [of "y - x"] by simp
    with False ab show ?thesis by (simp add: fsub_def)
  qed
qed (use assms in \<open>simp_all add: fsub_def\<close>)

lemma fle_trans: "fle a b \<Longrightarrow> fle b c \<Longrightarrow> fle a c"
  by (cases a; cases b; cases c) simp_all

lemma not_fless_fle: "a \<noteq> NaN \<Longrightarrow> b \<noteq> NaN \<Longrightarrow> \<not> fless a b \<longleftrightarrow> fle b a"
  by (cases a; cases b) auto

lemma fless_fle: "fless a b \<Longrightarrow> fle a b"
  by (cases a; cases b) auto

lemma gridded_fdiv [simp]: "gridded (fdiv a b)"
  by (cases a; cases b) simp_all


lemma cosine_loop_norms:
  "length a = length b \<Longrightarrow> cosine_loop a b (d, na, nb) = (d', na', nb') \<Longrightarrow>
   na' = foldl (\<lambda>n x. fadd n (fmul x x)) na a \<and> nb' = foldl (\<lambda>n x. fadd n (fmul x x)) nb b"
  by (induction a b arbitrary: d na nb rule: list_induct2) auto

lemma gridded_cosineSimilarity [simp]: "gridded (cosineSimilarity a b)"
  by (simp add: cosineSimilarity_def split: prod.splits)


lemma rnd_neg_numeral [simp]:
  "numeral w < (2::int) ^ 53 \<Longrightarrow> rnd (- numeral w) = Num (- numeral w)"
  using rnd_of_int [of "- numeral w"] by simp

lemma rnd_neg_one [simp]: "rnd (- 1) = Num (- 1)"
  using rnd_of_int [of "- 1"] by simp

lemma mset_sort_insert: "mset (sort_insert cmp x ys) = add_mset x (mset ys)"
  by (induction ys) simp_all

lemma mset_js_sort: "mset (js_sort cmp xs) = mset xs"
  by (induction xs) (simp_all add: js_sort_def mset_sort_insert)

lemma set_js_sort: "set (js_sort cmp xs) = set xs"
  using mset_js_sort [of cmp xs] by (metis set_mset_mset)

lemma length_js_sort: "length (js_sort cmp xs) = length xs"
  using mset_js_sort [of cmp xs] by (metis size_mset)

lemma sorted_sort_insert:
  assumes "\<forall>p\<in>set (x # ys). valid_score (snd p)"
    and "sorted_wrt (\<lambda>a b. fle (snd b) (snd a)) ys"
  shows "sorted_wrt (\<lambda>a b. fle (snd b) (snd a)) (sort_insert by_similarity x ys)"
  using assms
proof (induction ys)
  case Nil
  then show ?case by simp
next
  case (Cons y ys)
  have vx: "gridded (snd x)" "snd x \<noteq> NaN" and vy: "gridded (snd y)" "snd y \<noteq> NaN"
    using Cons.prems(1) by (simp_all add: valid_score_def)
  have cmp: "positive (by_similarity x y) = fless (snd x) (snd y)"
    unfolding by_similarity_def using vx vy by (intro positive_fsub)
  show ?case
  proof (cases "fless (snd x) (snd y)")
    case True
    have ih: "sorted_wrt (\<lambda>a b. fle (snd b) (snd a)) (sort_insert by_similarity x ys)"
      using Cons.prems by (intro Cons.IH) simp_all
    have "\<forall>z\<in>set (sort_insert by_similarity x ys). fle (snd z) (snd y)"
    proof
      fix z assume "z \<in> set (sort_insert by_similarity x ys)"
      then have "z \<in># mset (sort_insert by_similarity x ys)" by simp
      then have "z = x \<or> z \<in> set ys" by (simp add: mset_sort_insert)
      then show "fle (snd z) (snd y)"
        using True Cons.prems(2) by (auto simp: fless_fle)
    qed
    with ih True cmp show ?thesis by simp
  next
    case False
    then have yx: "fle (snd y) (snd x)" using vx vy by (simp add: not_fless_fle)
    have "\<forall>z\<in>set ys. fle (snd z) (snd x)"
      using Cons.prems(2) yx by (auto intro: fle_trans)
    with yx False cmp Cons.prems(2) show ?thesis by simp
  qed
qed

lemma sorted_js_sort:
  "\<forall>p\<in>set xs. valid_score (snd p) \<Longrightarrow>
   sorted_wrt (\<lambda>a b. fle (snd b) (snd a)) (js_sort by_similarity xs)"
proof (induction xs)
  case Nil
  then show ?case by (simp add: js_sort_def)
next
  case (Cons x xs)
  then have ih: "sorted_wrt (\<lambda>a b. fle (snd b) (snd a)) (js_sort by_similarity xs)" by simp
  have "\<forall>p\<in>set (x # js_sort by_similarity xs). valid_score (snd p)"
    using Cons.prems by (simp add: set_js_sort)
  from sorted_sort_insert [OF this ih] show ?case by (simp add: js_sort_def)
qed


lemma rnd_pow2: "rnd (2 ^ n) = (if n < 1024 then Num (2 ^ n) else PInf)"
proof -
  have e: "ulp_exponent (2 ^ n) = max (int n) (- 1022) - 52"
    by (rule ulp_exponent_eq) (simp_all add: power_int_add)
  have "ulp_exponent (2 ^ n) \<le> int n" unfolding e by simp
  moreover have "(2::real) ^ n = of_int 1 * 2 powi (int n)" by simp
  ultimately have "rnd (2 ^ n) =
      (if 2 ^ 1024 \<le> (2::real) ^ n then PInf else if (2::real) ^ n \<le> - (2 ^ 1024) then NInf else Num (2 ^ n))"
    by (rule rnd_scaled_int)
  moreover have "(2::real) ^ 1024 \<le> 2 ^ n \<longleftrightarrow> 1024 \<le> n" by (rule power_increasing_iff) simp
  moreover have "\<not> (2::real) ^ n \<le> - (2 ^ 1024)"
  proof -
    have "- (2 ^ 1024) < (0::real)" by simp
    also have "0 < (2::real) ^ n" by simp
    finally show ?thesis by simp
  qed
  ultimately show ?thesis by (simp only: not_le [symmetric] if_False) auto
qed


lemma big_facts:
  "rnd (big * 0) = Num 0" "rnd (big * big) = Num (big * big)" "rnd (big * bigger) = PInf"
  "rnd (bigger * bigger) = PInf" "rnd (0 + big * big) = Num (big * big)"
  "rnd (big * big + 0) = Num (big * big)" "sqrt (big * big) = big" "rnd big = Num big"
  "rnd (big * 1) = Num big" "rnd (big / big) = Num 1" "rnd (0 / big) = Num 0"
  "big \<noteq> 0" "0 < big" "big * big \<noteq> 0" "rnd (0 + big) = Num big" "rnd (big + 0) = Num big"
  "\<bar>big\<bar> = big"
proof -
  have bb: "big * big = 2 ^ 1000" and bB: "big * bigger = 2 ^ 1100" and BB: "bigger * bigger = 2 ^ 1200"
    unfolding big_def bigger_def by (simp_all only: power_add [symmetric]) simp_all
  show "rnd (big * big) = Num (big * big)" unfolding bb by (simp only: rnd_pow2) simp
  then show "rnd (0 + big * big) = Num (big * big)" "rnd (big * big + 0) = Num (big * big)" by simp_all
  show "rnd (big * bigger) = PInf" unfolding bB by (simp only: rnd_pow2) simp
  show "rnd (bigger * bigger) = PInf" unfolding BB by (simp only: rnd_pow2) simp
  show "rnd big = Num big" unfolding big_def by (simp only: rnd_pow2) simp
  then show "rnd (big * 1) = Num big" "rnd (0 + big) = Num big" "rnd (big + 0) = Num big" by simp_all
  show pos: "0 < big" unfolding big_def by simp
  then show "big \<noteq> 0" "big * big \<noteq> 0" "\<bar>big\<bar> = big" by simp_all
  from pos show "sqrt (big * big) = big" by simp
  from pos show "rnd (big / big) = Num 1" by simp
  show "rnd (big * 0) = Num 0" "rnd (0 / big) = Num 0" by simp_all
qed

lemma cos_big:
  "cosineSimilarity [Num big, Num 0] [Num 0, Num 1] = Num 0"
  "cosineSimilarity [Num big, Num 0] [Num bigger, Num 0] = NaN"
  "cosineSimilarity [Num big, Num 0] [Num 1, Num 0] = Num 1"
  by (simp_all add: cosineSimilarity_def big_facts)




lemma round_even_ge_int: "of_int n \<le> y \<Longrightarrow> n \<le> round_even y"
proof -
  assume "of_int n \<le> y"
  then have "n \<le> \<lfloor>y\<rfloor>" by (simp add: le_floor_iff)
  moreover have "\<lfloor>y\<rfloor> \<le> round_even y" by (simp add: round_even_def Let_def)
  ultimately show ?thesis by simp
qed


lemma rnd_ge_pow:
  assumes lo: "2 powi k \<le> x" and k: "- 1022 \<le> k"
  shows "rnd x = PInf \<or> (\<exists>r. rnd x = Num r \<and> 2 powi k \<le> r)"
proof -
  have "0 < (2::real) powi k" by simp
  with lo have pos: "0 < x" by linarith
  let ?e = "\<lfloor>log 2 x\<rfloor>"
  have e1: "2 powi ?e \<le> x" and e2: "x < 2 powi (?e + 1)"
    using pos by (rule floor_log2_bounds)+
  from lo e2 have "(2::real) powi k < 2 powi (?e + 1)" by linarith
  then have "k < ?e + 1" by (rule powi_less_cancel)
  then have ke: "k \<le> ?e" by simp
  with k have ege: "- 1022 \<le> ?e" by linarith
  from pos have ax: "\<bar>x\<bar> = x" by simp
  have "ulp_exponent x = max ?e (- 1022) - 52"
    by (rule ulp_exponent_eq) (simp_all only: ax e1 e2)
  with ege have u: "ulp_exponent x = ?e - 52" by simp
  define U :: real where "U = 2 powi (?e - 52)"
  define n where "n = round_even (x / U)"
  define r :: real where "r = of_int n * U"
  have Upos: "0 < U" unfolding U_def by simp
  have "(2::real) powi (?e - 52) = 2 powi ?e / 2 powi 52" by (rule power_int_diff) simp
  then have UE: "2 powi ?e = U * 2 ^ 52" unfolding U_def by simp
  with e1 Upos have "of_int (2 ^ 52) \<le> x / U" by (simp add: field_simps)
  then have "2 ^ 52 \<le> n" unfolding n_def by (rule round_even_ge_int)
  then have "(2::real) ^ 52 \<le> of_int n" by (metis of_int_le_iff of_int_numeral of_int_power)
  then have "2 ^ 52 * U \<le> r" unfolding r_def using Upos by (intro mult_right_mono) simp_all
  with UE have "2 powi ?e \<le> r" by (simp add: mult.commute)
  moreover have "(2::real) powi k \<le> 2 powi ?e" using ke by (intro power_int_increasing) simp_all
  ultimately have kr: "2 powi k \<le> r" by linarith
  with \<open>0 < 2 powi k\<close> have "0 < r" by linarith
  then have r_lo: "\<not> r \<le> - (2 ^ 1024)" by simp
  have "rnd x = (if 2 ^ 1024 \<le> r then PInf else Num r)"
    unfolding rnd_def u Let_def using r_lo by (simp only: r_def n_def U_def if_False)
  with kr show ?thesis by auto
qed




text \<open>
  The divisor of \<open>cosineSimilarity\<close> is never zero: a squared norm that is not zero is at
  least the least positive double, its square root is at least \<open>2 powi (- 537)\<close>, and
  the product of two such roots does not underflow to zero.
\<close>

lemma norm_value_rnd:
  assumes "0 \<le> x"
  shows "norm_value (rnd x)"
proof -
  let ?u = "ulp_exponent x"
  define r :: real where "r = of_int (round_even (x / 2 powi ?u)) * 2 powi ?u"
  from assms have "of_int 0 \<le> x / 2 powi ?u" by simp
  then have "0 \<le> round_even (x / 2 powi ?u)" by (rule round_even_ge_int)
  then have r0: "0 \<le> r" unfolding r_def by simp
  have g: "on_grid r" unfolding r_def by (rule rnd_value_on_grid)
  have nv: "r = 0 \<or> min_positive \<le> r"
  proof (cases "r = 0")
    case False
    with r0 have "0 < r" by simp
    with grid_gap [of 0 r] g show ?thesis by simp
  qed simp
  have "\<not> r \<le> - (2 ^ 1024)" using r0 by simp
  then have "rnd x = (if 2 ^ 1024 \<le> r then PInf else Num r)"
    unfolding rnd_def Let_def by (simp only: r_def if_False)
  with nv show ?thesis by auto
qed

lemma norm_value_nonneg: "norm_value (Num x) \<Longrightarrow> 0 \<le> x"
  using min_positive_pos by auto

lemma norm_value_square: "norm_value (fmul x x)"
  by (cases x) (simp_all add: norm_value_rnd)

lemma norm_value_fadd: "norm_value a \<Longrightarrow> norm_value b \<Longrightarrow> norm_value (fadd a b)"
proof (cases a; cases b)
  fix x y assume "a = Num x" "b = Num y" "norm_value a" "norm_value b"
  then show ?thesis using norm_value_nonneg [of x] norm_value_nonneg [of y]
    by (simp add: norm_value_rnd del: norm_value.simps(1))
qed simp_all

lemma norm_value_foldl:
  "norm_value d \<Longrightarrow> norm_value (foldl (\<lambda>n x. fadd n (fmul x x)) d a)"
  by (induction a arbitrary: d) (simp_all add: norm_value_fadd norm_value_square)

lemma fsqrt_lower:
  assumes "norm_value a" and "a \<noteq> Num 0"
  shows "fsqrt a = PInf \<or> fsqrt a = NaN \<or> (\<exists>s. fsqrt a = Num s \<and> 2 powi (- 537) \<le> s)"
proof (cases a)
  case (Num x)
  with assms have x: "min_positive \<le> x" by simp
  with min_positive_pos have pos: "0 < x" by linarith
  have "(2::real) powi (- 537 + - 537) = 2 powi (- 537) * 2 powi (- 537)"
    by (rule power_int_add) simp
  then have sq: "((2::real) powi (- 537))\<^sup>2 = min_positive"
    by (simp add: min_positive_def power2_eq_square)
  have "2 powi (- 537) \<le> sqrt x"
    by (rule real_le_rsqrt) (simp only: sq x)
  then have "rnd (sqrt x) = PInf \<or> (\<exists>r. rnd (sqrt x) = Num r \<and> 2 powi (- 537) \<le> r)"
    by (rule rnd_ge_pow) simp
  with Num pos show ?thesis by auto
qed (use assms in simp_all)

lemma divisor_nonzero:
  assumes "norm_value a" and "norm_value b" and "a \<noteq> Num 0" and "b \<noteq> Num 0"
  shows "fmul (fsqrt a) (fsqrt b) \<noteq> Num 0"
proof -
  have pp: "(0::real) < 2 powi (- 537)" by simp
  have prod: "fmul (Num s) (Num t) \<noteq> Num 0" if "2 powi (- 537) \<le> s" "2 powi (- 537) \<le> t" for s t
  proof -
    have "(2::real) powi (- 537 + - 537) = 2 powi (- 537) * 2 powi (- 537)"
      by (rule power_int_add) simp
    then have "min_positive = 2 powi (- 537) * 2 powi (- 537)"
      by (simp add: min_positive_def)
    also have "\<dots> \<le> s * t" using that pp by (intro mult_mono) simp_all
    finally have "positive (rnd (s * t))" by (rule positive_rnd)
    then show ?thesis by auto
  qed
  from fsqrt_lower [OF assms(1,3)] fsqrt_lower [OF assms(2,4)] show ?thesis
  proof (elim disjE exE conjE)
    fix s t assume "fsqrt a = Num s" "2 powi (- 537) \<le> s" "fsqrt b = Num t" "2 powi (- 537) \<le> t"
    then show ?thesis using prod by simp
  next
    fix t assume "fsqrt a = PInf" "fsqrt b = Num t" "2 powi (- 537) \<le> t"
    with pp have "0 < t" by linarith
    with \<open>fsqrt a = PInf\<close> \<open>fsqrt b = Num t\<close> show ?thesis by simp
  next
    fix s assume "fsqrt b = PInf" "fsqrt a = Num s" "2 powi (- 537) \<le> s"
    with pp have "0 < s" by linarith
    with \<open>fsqrt b = PInf\<close> \<open>fsqrt a = Num s\<close> show ?thesis by simp
  qed simp_all
qed

lemma cosine_divisor_nonzero:
  assumes "length a = length b" and "cosine_loop a b (Num 0, Num 0, Num 0) = (d, na, nb)"
    and "na \<noteq> Num 0" and "nb \<noteq> Num 0"
  shows "fmul (fsqrt na) (fsqrt nb) \<noteq> Num 0"
proof -
  from cosine_loop_norms [OF assms(1,2)]
  have "na = foldl (\<lambda>n x. fadd n (fmul x x)) (Num 0) a"
    and "nb = foldl (\<lambda>n x. fadd n (fmul x x)) (Num 0) b" by simp_all
  then have "norm_value na" "norm_value nb" by (simp_all add: norm_value_foldl)
  then show ?thesis using assms(3,4) by (rule divisor_nonzero)
qed

text \<open>
  The scores of \<open>[1, 0, 1]\<close> against itself and against \<open>[3, 0, 3]\<close>: the square root
  of \<open>2\<close> rounds up and its square rounds to \<open>2 + 1 / 2 ^ 51\<close>, while the product of
  the rounded roots of \<open>2\<close> and \<open>18\<close> rounds to \<open>6\<close>.
\<close>

lemma rnd_sqrt_2: "rnd (sqrt 2) = Num (6369051672525773 / 2 ^ 52)"
proof -
  have lo: "(12738103345051545 / 2 ^ 53) < sqrt 2"
    by (rule real_less_rsqrt) (simp add: power2_eq_square)
  have hi: "sqrt 2 < (12738103345051547 / 2 ^ 53)"
    by (rule real_less_lsqrt) (simp_all add: power2_eq_square)
  have "rnd (sqrt 2) = Num (of_int 6369051672525773 * 2 powi (- 52))"
  proof (rule rnd_bracket [where e = 0])
    show "2 powi 0 \<le> \<bar>sqrt 2\<bar>" by simp
    show "\<bar>sqrt 2\<bar> < 2 powi (0 + 1)" using hi by simp
    show "- 52 = max (0::int) (- 1022) - 52" by simp
    show "of_int 6369051672525773 - 1 / 2 < sqrt 2 / 2 powi (- 52)"
      using lo by (simp add: power_int_minus field_simps)
    show "sqrt 2 / 2 powi (- 52) < of_int 6369051672525773 + 1 / 2"
      using hi by (simp add: power_int_minus field_simps)
    show "\<bar>of_int 6369051672525773 * 2 powi (- 52)\<bar> < (2::real) ^ 1024"
      by (simp add: power_int_minus)
  qed
  then show ?thesis by (simp add: power_int_minus field_simps)
qed

lemma rnd_sqrt_18: "rnd (sqrt 18) = Num (4776788754394329 / 2 ^ 50)"
proof -
  have lo: "(9553577508788657 / 2 ^ 51) < sqrt 18"
    by (rule real_less_rsqrt) (simp add: power2_eq_square)
  have hi: "sqrt 18 < (9553577508788659 / 2 ^ 51)"
    by (rule real_less_lsqrt) (simp_all add: power2_eq_square)
  have four: "4 \<le> sqrt 18"
    by (rule real_le_rsqrt) (simp add: power2_eq_square)
  have "rnd (sqrt 18) = Num (of_int 4776788754394329 * 2 powi (- 50))"
  proof (rule rnd_bracket [where e = 2])
    show "2 powi 2 \<le> \<bar>sqrt 18\<bar>" using four by simp
    show "\<bar>sqrt 18\<bar> < 2 powi (2 + 1)" using hi by simp
    show "- 50 = max (2::int) (- 1022) - 52" by simp
    show "of_int 4776788754394329 - 1 / 2 < sqrt 18 / 2 powi (- 50)"
      using lo by (simp add: power_int_minus field_simps)
    show "sqrt 18 / 2 powi (- 50) < of_int 4776788754394329 + 1 / 2"
      using hi by (simp add: power_int_minus field_simps)
    show "\<bar>of_int 4776788754394329 * 2 powi (- 50)\<bar> < (2::real) ^ 1024"
      by (simp add: power_int_minus)
  qed
  then show ?thesis by (simp add: power_int_minus field_simps)
qed

lemma rnd_sqrt2_squared:
  "rnd ((6369051672525773 / 2 ^ 52) * (6369051672525773 / 2 ^ 52)) = Num (4503599627370497 / 2 ^ 51)"
proof -
  let ?x = "(6369051672525773 / 2 ^ 52) * (6369051672525773 / 2 ^ 52) :: real"
  have "rnd ?x = Num (of_int 4503599627370497 * 2 powi (- 51))"
  proof (rule rnd_bracket [where e = 1])
    show "2 powi 1 \<le> \<bar>?x\<bar>" by simp
    show "\<bar>?x\<bar> < 2 powi (1 + 1)" by simp
    show "- 51 = max (1::int) (- 1022) - 52" by simp
    show "of_int 4503599627370497 - 1 / 2 < ?x / 2 powi (- 51)"
      by (simp add: power_int_minus)
    show "?x / 2 powi (- 51) < of_int 4503599627370497 + 1 / 2"
      by (simp add: power_int_minus)
    show "\<bar>of_int 4503599627370497 * 2 powi (- 51)\<bar> < (2::real) ^ 1024"
      by (simp add: power_int_minus)
  qed
  then show ?thesis by (simp add: power_int_minus field_simps)
qed

lemma rnd_sqrt2_sqrt18:
  "rnd ((6369051672525773 / 2 ^ 52) * (4776788754394329 / 2 ^ 50)) = Num 6"
proof -
  let ?x = "(6369051672525773 / 2 ^ 52) * (4776788754394329 / 2 ^ 50) :: real"
  have "rnd ?x = Num (of_int 6755399441055744 * 2 powi (- 50))"
  proof (rule rnd_bracket [where e = 2])
    show "2 powi 2 \<le> \<bar>?x\<bar>" by simp
    show "\<bar>?x\<bar> < 2 powi (2 + 1)" by simp
    show "- 50 = max (2::int) (- 1022) - 52" by simp
    show "of_int 6755399441055744 - 1 / 2 < ?x / 2 powi (- 50)"
      by (simp add: power_int_minus)
    show "?x / 2 powi (- 50) < of_int 6755399441055744 + 1 / 2"
      by (simp add: power_int_minus)
    show "\<bar>of_int 6755399441055744 * 2 powi (- 50)\<bar> < (2::real) ^ 1024"
      by (simp add: power_int_minus)
  qed
  then show ?thesis by (simp add: power_int_minus field_simps)
qed

lemma rnd_quotient_2:
  "rnd (2 / (4503599627370497 / 2 ^ 51)) = Num (1 - 1 / 2 ^ 52)"
proof -
  let ?x = "2 / (4503599627370497 / 2 ^ 51) :: real"
  have "rnd ?x = Num (of_int 9007199254740990 * 2 powi (- 53))"
  proof (rule rnd_bracket [where e = "- 1"])
    show "2 powi (- 1) \<le> \<bar>?x\<bar>" by simp
    show "\<bar>?x\<bar> < 2 powi (- 1 + 1)" by simp
    show "- 53 = max (- 1::int) (- 1022) - 52" by simp
    show "of_int 9007199254740990 - 1 / 2 < ?x / 2 powi (- 53)"
      by (simp add: power_int_minus)
    show "?x / 2 powi (- 53) < of_int 9007199254740990 + 1 / 2"
      by (simp add: power_int_minus)
    show "\<bar>of_int 9007199254740990 * 2 powi (- 53)\<bar> < (2::real) ^ 1024"
      by (simp add: power_int_minus)
  qed
  then show ?thesis by (simp add: power_int_minus field_simps)
qed

lemma cos_parallel:
  "cosineSimilarity [Num 1, Num 0, Num 1] [Num 1, Num 0, Num 1] = Num (1 - 1 / 2 ^ 52)"
  "cosineSimilarity [Num 1, Num 0, Num 1] [Num 3, Num 0, Num 3] = Num 1"
  using rnd_sqrt_2 rnd_sqrt_18 rnd_sqrt2_squared rnd_sqrt2_sqrt18 rnd_quotient_2
  by (simp_all add: cosineSimilarity_def)

section \<open>Properties of the store\<close>

lemmas rec_defs = insertDocumentChunk.defs documentChunk.defs insertMessage.defs message.defs
  insertConversation.defs conversation.defs

lemmas demo_defs = demo_store_def indexDocument_def demo_providers_def demo_document_def
  store_chunk_def chunk_insert_def createDocumentChunk_def newMemStorage_def rec_defs
  demo_uuids_def demo_stamps_def js_def Let_def map_values_def

lemmas search_defs = searchChunksByEmbedding_def has_embedding_def similarity_to_def
  cosineSimilarity_def js_slice_def js_sort_def by_similarity_def fsub_def

lemma slice_0:
  "js_slice xs 0 (Some e) = take (nat (if e < 0 then max (int (length xs) + e) 0 else e)) xs"
  by (auto simp: js_slice_def Let_def min_def)

lemma length_slice_0: "0 \<le> e \<Longrightarrow> int (length (js_slice xs 0 (Some e))) \<le> e"
  by (simp add: slice_0)

lemma set_slice: "set (js_slice xs a b) \<subseteq> set xs"
  by (auto simp: js_slice_def Let_def dest: in_set_takeD in_set_dropD)

lemma slice_map: "map f (js_slice xs a b) = js_slice (map f xs) a b"
  by (simp add: js_slice_def Let_def take_map drop_map)

lemma js_slice_take: "js_slice xs 0 (Some (int n)) = take n xs"
  by (simp add: js_slice_def Let_def min_def)

lemma search_frame: "snd (searchChunksByEmbedding s q k) = s"
  by (simp add: searchChunksByEmbedding_def Let_def)

lemma scored_snd: "p \<in> set (scored q s) \<Longrightarrow> snd p = similarity_to q (fst p)"
  by (auto simp: scored_def set_js_sort)

lemma scored_fst:
  "p \<in> set (scored q s) \<Longrightarrow>
   has_embedding (fst p) \<and> fst p \<in> set (map_values (documentChunks s))"
  by (auto simp: scored_def set_js_sort)

lemma mset_ranking:
  "mset (ranking q s) = mset (filter has_embedding (map_values (documentChunks s)))"
proof -
  have "mset (ranking q s) = image_mset fst (mset (scored q s))"
    by (simp add: ranking_def)
  also have "mset (scored q s) =
      mset (map (\<lambda>chunk. (chunk, similarity_to q chunk))
              (filter has_embedding (map_values (documentChunks s))))"
    unfolding scored_def by (rule mset_js_sort)
  also have "image_mset fst \<dots> =
      mset (map fst (map (\<lambda>chunk. (chunk, similarity_to q chunk))
              (filter has_embedding (map_values (documentChunks s)))))"
    by (rule mset_map [symmetric])
  also have "map fst (map (\<lambda>chunk. (chunk, similarity_to q chunk))
              (filter has_embedding (map_values (documentChunks s)))) =
      filter has_embedding (map_values (documentChunks s))"
    by (simp add: comp_def)
  finally show ?thesis .
qed

lemma set_ranking:
  "set (ranking q s) = set (filter has_embedding (map_values (documentChunks s)))"
  using mset_ranking [of q s] by (metis set_mset_mset)

lemma sorted_ranking:
  assumes "\<forall>chunk\<in>set (ranking q s). similarity_to q chunk \<noteq> NaN"
  shows "sorted_wrt (\<lambda>a b. fle (similarity_to q b) (similarity_to q a)) (ranking q s)"
proof -
  let ?xs = "map (\<lambda>chunk. (chunk, similarity_to q chunk))
               (filter has_embedding (map_values (documentChunks s)))"
  have "\<forall>p\<in>set ?xs. valid_score (snd p)"
    using assms by (auto simp: valid_score_def similarity_to_def set_ranking)
  then have "sorted_wrt (\<lambda>a b. fle (snd b) (snd a)) (scored q s)"
    unfolding scored_def by (rule sorted_js_sort)
  then have "sorted_wrt (\<lambda>a b. fle (similarity_to q (fst b)) (similarity_to q (fst a))) (scored q s)"
    by (rule sorted_wrt_mono_rel [rotated]) (simp add: scored_snd)
  then show ?thesis by (simp add: ranking_def sorted_wrt_map)
qed

lemma search_ranking:
  "fst (searchChunksByEmbedding s q k) = js_slice (ranking q s) 0 (Some k)"
  by (simp add: searchChunksByEmbedding_def scored_def ranking_def Let_def slice_map)

lemma sorted_wrt_js_slice: "sorted_wrt R xs \<Longrightarrow> sorted_wrt R (js_slice xs a b)"
  by (simp add: js_slice_def Let_def sorted_wrt_take sorted_wrt_drop)

text \<open>
  C2, as the code has it. The ranking is a rearrangement of the stored chunks that have
  a non-empty embedding. For \<open>0 \<le> k\<close>, \<open>searchChunksByEmbedding\<close> returns the first
  \<open>k\<close> chunks of the ranking (all of them when there are fewer), hence at most \<open>k\<close>
  chunks; for a negative \<open>k\<close>, \<open>slice(0, k)\<close> returns the ranking without its last
  \<open>- k\<close> chunks. When no score is \<open>NaN\<close>, the ranking and the result are in
  descending order of the cosine similarity that the code computes in double precision.
  For every \<open>k\<close>, each returned chunk is a stored chunk whose embedding is neither
  absent nor empty.
\<close>

theorem searchChunksByEmbedding_top_k:
  "mset (ranking q s) = mset (filter has_embedding (map_values (documentChunks s))) \<and>
   (0 \<le> k \<longrightarrow>
      fst (searchChunksByEmbedding s q k) = take (nat k) (ranking q s) \<and>
      int (length (fst (searchChunksByEmbedding s q k))) \<le> k) \<and>
   (k < 0 \<longrightarrow>
      fst (searchChunksByEmbedding s q k) =
        take (length (ranking q s) - nat (- k)) (ranking q s)) \<and>
   ((\<forall>chunk\<in>set (ranking q s). similarity_to q chunk \<noteq> NaN) \<longrightarrow>
      sorted_wrt (\<lambda>a b. fle (similarity_to q b) (similarity_to q a)) (ranking q s) \<and>
      sorted_wrt (\<lambda>a b. fle (similarity_to q b) (similarity_to q a))
        (fst (searchChunksByEmbedding s q k))) \<and>
   (\<forall>chunk\<in>set (fst (searchChunksByEmbedding s q k)).
      embedding chunk \<noteq> None \<and> embedding chunk \<noteq> Some [] \<and>
      chunk \<in> set (map_values (documentChunks s)))"
proof (intro conjI impI ballI)
  show "mset (ranking q s) = mset (filter has_embedding (map_values (documentChunks s)))"
    by (rule mset_ranking)
next
  assume k: "0 \<le> k"
  then show "fst (searchChunksByEmbedding s q k) = take (nat k) (ranking q s)"
    by (simp add: search_ranking slice_0)
  from k show "int (length (fst (searchChunksByEmbedding s q k))) \<le> k"
    using length_slice_0 [of k "ranking q s"] by (simp add: search_ranking)
next
  assume k: "k < 0"
  show "fst (searchChunksByEmbedding s q k) =
      take (length (ranking q s) - nat (- k)) (ranking q s)"
  proof -
    have "nat (max (int (length (ranking q s)) + k) 0) = length (ranking q s) - nat (- k)"
      using k by linarith
    with k show ?thesis by (simp add: search_ranking slice_0)
  qed
next
  assume "\<forall>chunk\<in>set (ranking q s). similarity_to q chunk \<noteq> NaN"
  then show r: "sorted_wrt (\<lambda>a b. fle (similarity_to q b) (similarity_to q a)) (ranking q s)"
    by (rule sorted_ranking)
  then show "sorted_wrt (\<lambda>a b. fle (similarity_to q b) (similarity_to q a))
      (fst (searchChunksByEmbedding s q k))"
    unfolding search_ranking by (rule sorted_wrt_js_slice)
next
  fix chunk assume "chunk \<in> set (fst (searchChunksByEmbedding s q k))"
  then have "chunk \<in> set (ranking q s)"
    using set_slice [of "ranking q s" 0 "Some k"] by (auto simp: search_ranking)
  then have h: "has_embedding chunk \<and> chunk \<in> set (map_values (documentChunks s))"
    by (simp add: set_ranking)
  then show "embedding chunk \<noteq> None" and "embedding chunk \<noteq> Some []"
    and "chunk \<in> set (map_values (documentChunks s))"
    by (auto simp: has_embedding_def split: option.splits)
qed

lemma demo_store_chunks:
  "map (\<lambda>c. (chunk_id c, documentId c, chunkIndex c, embedding c)) (map_values (documentChunks demo_store)) =
     [(js ''chunk-0'', js ''doc-1'', 0, Some [Num 0, Num 1]),
      (js ''chunk-1'', js ''doc-1'', 1, Some [Num 1, Num 0]),
      (js ''chunk-2'', js ''doc-1'', 2, None)]"
  by (simp add: demo_defs)

lemma demo_ranking:
  "map chunk_id (ranking [Num 1, Num 0] demo_store) = [js ''chunk-1'', js ''chunk-0'']"
  "map (similarity_to [Num 1, Num 0]) (ranking [Num 1, Num 0] demo_store) = [Num 1, Num 0]"
  by (simp_all add: demo_defs search_defs ranking_def scored_def)

lemma demo_search:
  "map chunk_id (fst (searchChunksByEmbedding demo_store [Num 1, Num 0] 5)) =
     [js ''chunk-1'', js ''chunk-0'']"
  by (simp add: demo_defs search_defs)

text \<open>
  Rounding orders scores that exact arithmetic makes equal: of two embeddings parallel
  to the query, the later one scores \<open>1\<close>, the earlier one \<open>1 - 1 / 2 ^ 52\<close>, and the
  search puts the later one first.
\<close>

lemma positive_parallel: "x = 1 - 1 / 2 ^ 52 \<Longrightarrow> positive (fsub (Num 1) (Num x))"
proof -
  let ?q = "[Num 1, Num 0, Num 1]" and ?e = "[Num 3, Num 0, Num 3]"
  assume x: "x = 1 - 1 / 2 ^ 52"
  have "positive (fsub (cosineSimilarity ?q ?e) (cosineSimilarity ?q ?q)) =
      fless (cosineSimilarity ?q ?q) (cosineSimilarity ?q ?e)"
  proof (rule positive_fsub)
    show "gridded (cosineSimilarity ?q ?q)" "gridded (cosineSimilarity ?q ?e)"
      by (rule gridded_cosineSimilarity)+
    show "cosineSimilarity ?q ?q \<noteq> NaN" "cosineSimilarity ?q ?e \<noteq> NaN"
      by (simp_all only: cos_parallel) simp_all
  qed
  then show ?thesis unfolding cos_parallel x by simp
qed

lemma parallel_search:
  "map (\<lambda>c. (chunk_id c, similarity_to [Num 1, Num 0, Num 1] c))
     (fst (searchChunksByEmbedding parallel_store [Num 1, Num 0, Num 1] 5)) =
     [(js ''chunk-1'', Num 1), (js ''chunk-0'', Num (1 - 1 / 2 ^ 52))]"
  "map chunk_id (fst (searchChunksByEmbedding parallel_store [Num 1, Num 0, Num 1] 1)) =
     [js ''chunk-1'']"
  by (simp_all add: parallel_store_def parallel_providers_def indexDocument_def demo_document_def
      store_chunk_def chunk_insert_def createDocumentChunk_def newMemStorage_def rec_defs
      demo_uuids_def demo_stamps_def js_def Let_def map_values_def
      searchChunksByEmbedding_def has_embedding_def similarity_to_def
      js_slice_def js_sort_def by_similarity_def cos_parallel positive_parallel)

theorem searchChunksByEmbedding_top_k_witness:
  "(0::int) \<le> 1 \<and>
   map (similarity_to [Num 1, Num 0]) (ranking [Num 1, Num 0] demo_store) = [Num 1, Num 0] \<and>
   map chunk_id (fst (searchChunksByEmbedding demo_store [Num 1, Num 0] 1)) = [js ''chunk-1''] \<and>
   fst (searchChunksByEmbedding demo_store [Num 1, Num 0] 1) =
     take 1 (ranking [Num 1, Num 0] demo_store) \<and>
   int (length (fst (searchChunksByEmbedding demo_store [Num 1, Num 0] 1))) \<le> 1 \<and>
   sorted_wrt (\<lambda>a b. fle (similarity_to [Num 1, Num 0] b) (similarity_to [Num 1, Num 0] a))
     (ranking [Num 1, Num 0] demo_store) \<and>
   embedding (hd (fst (searchChunksByEmbedding demo_store [Num 1, Num 0] 1))) \<noteq> None"
proof -
  let ?q = "[Num 1, Num 0]"
  let ?r = "fst (searchChunksByEmbedding demo_store ?q 1)"
  note t = searchChunksByEmbedding_top_k [of ?q demo_store 1]
  have k: "(0::int) \<le> 1" by simp
  have sims: "map (similarity_to ?q) (ranking ?q demo_store) = [Num 1, Num 0]"
    by (rule demo_ranking)
  have nonan: "\<forall>chunk\<in>set (ranking ?q demo_store). similarity_to ?q chunk \<noteq> NaN"
  proof
    fix chunk assume "chunk \<in> set (ranking ?q demo_store)"
    then have "similarity_to ?q chunk \<in> set (map (similarity_to ?q) (ranking ?q demo_store))"
      by simp
    then show "similarity_to ?q chunk \<noteq> NaN" unfolding sims by auto
  qed
  have ev: "map chunk_id ?r = [js ''chunk-1'']"
    by (simp add: demo_defs search_defs)
  then have ne: "hd ?r \<in> set ?r" by (cases ?r) auto
  from t k have a: "?r = take (nat 1) (ranking ?q demo_store)" and b: "int (length ?r) \<le> 1"
    by blast+
  from t nonan have c: "sorted_wrt (\<lambda>a b. fle (similarity_to ?q b) (similarity_to ?q a))
     (ranking ?q demo_store)" by blast
  from t ne have d: "embedding (hd ?r) \<noteq> None" by blast
  from a have a': "?r = take 1 (ranking ?q demo_store)" by simp
  from k sims ev a' b c d show ?thesis by (intro conjI)
qed

lemma overflow_search:
  "map (similarity_to [Num big, Num 0]) (fst (searchChunksByEmbedding overflow_store [Num big, Num 0] 5)) =
     [Num 0, NaN, Num 1]"
  by (simp add: overflow_store_def overflow_providers_def indexDocument_def demo_document_def
      store_chunk_def chunk_insert_def createDocumentChunk_def newMemStorage_def rec_defs
      demo_uuids_def demo_stamps_def js_def Let_def map_values_def
      searchChunksByEmbedding_def has_embedding_def similarity_to_def
      js_slice_def js_sort_def by_similarity_def fsub_def cos_big)

text \<open>
  C2 as stated fails for a negative limit: with two ranked chunks, the limit \<open>- 1\<close>
  returns one chunk, which is more than \<open>- 1\<close>. It also fails where a score is
  \<open>NaN\<close>: a query whose squared norm is finite against an embedding whose squared norm
  overflows scores \<open>NaN\<close>, the comparator is \<open>NaN\<close> on that chunk, and the scores
  \<open>0\<close>, \<open>NaN\<close>, \<open>1\<close> come back in the order of insertion.
\<close>

theorem searchChunksByEmbedding_top_k_counterexample:
  "map chunk_id (fst (searchChunksByEmbedding demo_store [Num 1, Num 0] (- 1))) = [js ''chunk-1''] \<and>
   \<not> int (length (fst (searchChunksByEmbedding demo_store [Num 1, Num 0] (- 1)))) \<le> - 1 \<and>
   map (similarity_to [Num big, Num 0])
     (fst (searchChunksByEmbedding overflow_store [Num big, Num 0] 5)) = [Num 0, NaN, Num 1] \<and>
   \<not> sorted_wrt (\<lambda>a b. fle b a)
     (map (similarity_to [Num big, Num 0])
        (fst (searchChunksByEmbedding overflow_store [Num big, Num 0] 5)))"
proof -
  have 1: "map chunk_id (fst (searchChunksByEmbedding demo_store [Num 1, Num 0] (- 1))) = [js ''chunk-1'']"
    by (simp add: demo_defs search_defs)
  then have "length (map chunk_id (fst (searchChunksByEmbedding demo_store [Num 1, Num 0] (- 1)))) = 1"
    by simp
  then have 2: "\<not> int (length (fst (searchChunksByEmbedding demo_store [Num 1, Num 0] (- 1)))) \<le> - 1"
    by simp
  have 3: "\<not> sorted_wrt (\<lambda>a b. fle b a)
     (map (similarity_to [Num big, Num 0])
        (fst (searchChunksByEmbedding overflow_store [Num big, Num 0] 5)))"
    unfolding overflow_search by simp
  from 1 2 overflow_search 3 show ?thesis by (intro conjI)
qed

subsection \<open>The score\<close>





subsection \<open>Conversations and reads\<close>

lemma map_get_map_set_same: "map_get (map_set k v m) k = Some v"
  by (induction m) (auto simp: map_get_def)

lemma map_get_map_set_other: "k' \<noteq> k \<Longrightarrow> map_get (map_set k v m) k' = map_get m k'"
  by (induction m) (auto simp: map_get_def)

text \<open>
  C8. \<open>updateConversation\<close> on an identifier that the store does not hold fails with
  the not-found error and leaves the store as it was; on an identifier that the store
  holds it succeeds, the record stored under the identifier is the returned one, its
  \<open>updatedAt\<close> is the time of the call, and no other conversation, no message and no
  chunk changes.
\<close>

theorem updateConversation_absent_present:
  "(map_get (conversations s) cid = None \<longrightarrow>
      updateConversation s cid data now = (Inl (not_found cid), s)) \<and>
   (\<forall>existing. map_get (conversations s) cid = Some existing \<longrightarrow>
      (\<exists>updated s'. updateConversation s cid data now = (Inr updated, s') \<and>
         map_get (conversations s') cid = Some updated \<and>
         updatedAt updated = now \<and>
         (\<forall>other. other \<noteq> cid \<longrightarrow> map_get (conversations s') other = map_get (conversations s) other) \<and>
         messages s' = messages s \<and> documentChunks s' = documentChunks s))"
  by (auto simp: updateConversation_def Let_def map_get_map_set_same map_get_map_set_other
      merge_conversation_def)

theorem updateConversation_absent_present_witness:
  "map_get (conversations demo_conversations) (js ''conv-2'') = None \<and>
   updateConversation demo_conversations (js ''conv-2'') demo_rename 2000 =
     (Inl (not_found (js ''conv-2'')), demo_conversations) \<and>
   map_get (conversations demo_conversations) (js ''conv-1'') =
     Some \<lparr>title = Some (js ''Dosage''), conversation_id = js ''conv-1'', createdAt = 1000,
           updatedAt = 1000\<rparr> \<and>
   fst (updateConversation demo_conversations (js ''conv-1'') demo_rename 2000) =
     Inr \<lparr>title = Some (js ''Aspirin''), conversation_id = js ''conv-1'', createdAt = 1000,
          updatedAt = 2000\<rparr> \<and>
   map_get (conversations (snd (updateConversation demo_conversations (js ''conv-1'') demo_rename 2000)))
     (js ''conv-1'') =
     Some \<lparr>title = Some (js ''Aspirin''), conversation_id = js ''conv-1'', createdAt = 1000,
           updatedAt = 2000\<rparr>"
proof -
  note t1 = updateConversation_absent_present [of demo_conversations "js ''conv-2''" demo_rename 2000]
  note t2 = updateConversation_absent_present [of demo_conversations "js ''conv-1''" demo_rename 2000]
  have 1: "map_get (conversations demo_conversations) (js ''conv-2'') = None"
    by (simp add: demo_conversations_def createConversation_def newMemStorage_def map_get_def
        js_def Let_def)
  have 2: "map_get (conversations demo_conversations) (js ''conv-1'') =
     Some \<lparr>title = Some (js ''Dosage''), conversation_id = js ''conv-1'', createdAt = 1000,
           updatedAt = 1000\<rparr>"
    by (simp add: demo_conversations_def createConversation_def newMemStorage_def map_get_def
        Let_def insertConversation.defs conversation.defs)
  from t1 1 have 3: "updateConversation demo_conversations (js ''conv-2'') demo_rename 2000 =
     (Inl (not_found (js ''conv-2'')), demo_conversations)" by blast
  from t2 2 obtain updated s' where
    u: "updateConversation demo_conversations (js ''conv-1'') demo_rename 2000 = (Inr updated, s')"
    and g: "map_get (conversations s') (js ''conv-1'') = Some updated"
    by blast
  have "updated = \<lparr>title = Some (js ''Aspirin''), conversation_id = js ''conv-1'', createdAt = 1000,
          updatedAt = 2000\<rparr>"
    using u 2 by (simp add: updateConversation_def merge_conversation_def demo_rename_def Let_def)
  with u g 1 2 3 show ?thesis by simp
qed

text \<open>
  C10. The read operations \<open>searchChunksByEmbedding\<close>, \<open>getAllChunks\<close>,
  \<open>getDocumentChunks\<close>, \<open>getConversation\<close> and \<open>getMessagesByConversation\<close>
  leave the store as it was; \<open>getMessagesByConversation\<close> on a conversation without
  stored messages returns the empty list.
\<close>

theorem reads_frame:
  "snd (searchChunksByEmbedding s q k) = s \<and>
   snd (getAllChunks s) = s \<and>
   snd (getDocumentChunks s did) = s \<and>
   snd (getConversation s cid) = s \<and>
   snd (getMessagesByConversation s cid) = s \<and>
   ((\<forall>msg\<in>set (map_values (messages s)). conversationId msg \<noteq> cid) \<longrightarrow>
      fst (getMessagesByConversation s cid) = [])"
  by (simp add: searchChunksByEmbedding_def Let_def getAllChunks_def getDocumentChunks_def
      getConversation_def getMessagesByConversation_def filter_empty_conv)

theorem reads_frame_witness:
  "conversationId (hd (map_values (messages demo_messages))) \<noteq> js ''conv-2'' \<and>
   map_values (messages demo_messages) \<noteq> [] \<and>
   getMessagesByConversation demo_messages (js ''conv-2'') = ([], demo_messages) \<and>
   snd (getConversation demo_messages (js ''conv-1'')) = demo_messages"
proof -
  have m: "map conversationId (map_values (messages demo_messages)) = [js ''conv-1'']"
    by (simp add: demo_messages_def createMessage_def demo_conversations_def
        createConversation_def newMemStorage_def Let_def map_values_def insertMessage.defs message.defs)
  then have 1: "\<forall>msg\<in>set (map_values (messages demo_messages)). conversationId msg \<noteq> js ''conv-2''"
    by (cases "map_values (messages demo_messages)") (auto simp: js_def)
  from m have 2: "map_values (messages demo_messages) \<noteq> []" by auto
  with 1 have 3: "conversationId (hd (map_values (messages demo_messages))) \<noteq> js ''conv-2''"
    by simp
  from reads_frame [of demo_messages _ _ _ "js ''conv-2''"] 1
  have "fst (getMessagesByConversation demo_messages (js ''conv-2'')) = []"
    and "snd (getMessagesByConversation demo_messages (js ''conv-2'')) = demo_messages"
    by blast+
  then have 4: "getMessagesByConversation demo_messages (js ''conv-2'') = ([], demo_messages)"
    by (cases "getMessagesByConversation demo_messages (js ''conv-2'')") simp
  from reads_frame [of demo_messages _ _ _ "js ''conv-1''"]
  have 5: "snd (getConversation demo_messages (js ''conv-1'')) = demo_messages" by blast
  from 2 3 4 5 show ?thesis by (intro conjI)
qed

section \<open>Properties of the RAG service\<close>

lemma code_points_fallbackMessage:
  "code_points fallbackMessage = map (\<lambda>c. [c]) fallbackMessage"
  by (simp add: fallbackMessage_def js_def)

text \<open>
  C3. When the embedding of the question is obtained and the retrieval returns no chunk,
  \<open>queryRAG\<close> returns the fallback answer with an empty citation list, and
  \<open>queryRAGStream\<close> yields an empty citation list followed by the fallback message,
  one code unit per token; both return normally (no error), and neither changes the store.
\<close>

theorem query_fallback:
  assumes "generateEmbedding p question = Inr e"
    and "fst (searchChunksByEmbedding s e 5) = []"
  shows "queryRAG p s question = (Inr \<lparr>answer = fallbackMessage, answer_citations = []\<rparr>, s) \<and>
         queryRAGStream p s question =
           ((Citations [] # map Token (map (\<lambda>c. [c]) fallbackMessage), None), s) \<and>
         concat (map (\<lambda>c. [c]) fallbackMessage) = fallbackMessage"
proof -
  from assms(2) have "searchChunksByEmbedding s e 5 = ([], s)"
    using search_frame [of s e 5] by (cases "searchChunksByEmbedding s e 5") simp
  with assms(1) show ?thesis
    by (simp add: queryRAG_def queryRAGStream_def code_points_fallbackMessage)
qed

theorem query_fallback_witness:
  "generateEmbedding demo_providers demo_question = Inr [Num 1, Num 0] \<and>
   fst (searchChunksByEmbedding newMemStorage [Num 1, Num 0] 5) = [] \<and>
   queryRAG demo_providers newMemStorage demo_question =
     (Inr \<lparr>answer = fallbackMessage, answer_citations = []\<rparr>, newMemStorage) \<and>
   queryRAGStream demo_providers newMemStorage demo_question =
     ((Citations [] # map Token (map (\<lambda>c. [c]) fallbackMessage), None), newMemStorage)"
proof -
  have 1: "generateEmbedding demo_providers demo_question = Inr [Num 1, Num 0]"
    by (simp add: demo_providers_def)
  have 2: "fst (searchChunksByEmbedding newMemStorage [Num 1, Num 0] 5) = []"
    by (simp add: newMemStorage_def map_values_def search_defs)
  from query_fallback [OF 1 2] 1 2 show ?thesis by (intro conjI) simp_all
qed

text \<open>
  C4. When the embedding of the question is obtained, the events of \<open>queryRAGStream\<close>
  are one citations event, carrying the citations of all retrieved chunks, followed by
  token events only, one per fragment that the completion stream yields; on the fallback
  path the tokens are the single characters of the fallback message, in order.
\<close>

theorem stream_events:
  assumes "generateEmbedding p question = Inr e"
  shows "fst (fst (queryRAGStream p s question)) =
           Citations (map citation_of (fst (searchChunksByEmbedding s e 5))) #
           map Token
             (if fst (searchChunksByEmbedding s e 5) = [] then map (\<lambda>c. [c]) fallbackMessage
              else fst (generateChatCompletionStream p question
                     (build_context (fst (searchChunksByEmbedding s e 5)))))"
proof -
  obtain cs s' where r: "searchChunksByEmbedding s e 5 = (cs, s')"
    by (cases "searchChunksByEmbedding s e 5")
  obtain tokens failure where
    t: "generateChatCompletionStream p question (build_context cs) = (tokens, failure)"
    by (cases "generateChatCompletionStream p question (build_context cs)")
  from r assms t show ?thesis
    by (simp add: queryRAGStream_def Let_def code_points_fallbackMessage)
qed

theorem stream_events_witness:
  "generateEmbedding demo_providers demo_question = Inr [Num 1, Num 0] \<and>
   fst (fst (queryRAGStream demo_providers demo_store demo_question)) =
     [Citations (map citation_of (fst (searchChunksByEmbedding demo_store [Num 1, Num 0] 5))),
      Token (js ''Aspirin ''), Token (js ''helps.'')]"
proof -
  have 1: "generateEmbedding demo_providers demo_question = Inr [Num 1, Num 0]"
    by (simp add: demo_providers_def)
  have "map chunk_id (fst (searchChunksByEmbedding demo_store [Num 1, Num 0] 5)) \<noteq> []"
    by (simp add: demo_search)
  then have 2: "fst (searchChunksByEmbedding demo_store [Num 1, Num 0] 5) \<noteq> []" by auto
  have 3: "fst (generateChatCompletionStream demo_providers q c) = [js ''Aspirin '', js ''helps.'']" for q c
    by (simp add: demo_providers_def)
  from stream_events [OF 1, of demo_store] 2 3 1 show ?thesis by simp
qed

text \<open>
  C7. The citation built from a chunk has as excerpt the first 200 code units of the
  content, followed by \<open>...\<close> exactly when the content is longer than 200; its
  confidence is the constant 0.85, whatever the similarity; its page is the chunk index
  plus 1. The citations event of \<open>queryRAGStream\<close> and the citations of a
  \<open>queryRAG\<close> answer hold exactly these citations of the retrieved chunks, in order.
\<close>

theorem citation_fields:
  "excerpt (citation_of chunk) =
     take 200 (chunk_content chunk) @ (if length (chunk_content chunk) > 200 then js ''...'' else []) \<and>
   confidence (citation_of chunk) = Some (85 / 100) \<and>
   page (citation_of chunk) = Some (chunkIndex chunk + 1) \<and>
   (generateEmbedding p question = Inr e \<longrightarrow>
      hd (fst (fst (queryRAGStream p s question))) =
        Citations (map citation_of (fst (searchChunksByEmbedding s e 5))) \<and>
      (\<forall>r s'. queryRAG p s question = (Inr r, s') \<longrightarrow>
         answer_citations r = map citation_of (fst (searchChunksByEmbedding s e 5))))"
proof -
  have a: "excerpt (citation_of chunk) =
     take 200 (chunk_content chunk) @ (if length (chunk_content chunk) > 200 then js ''...'' else [])"
    and b: "confidence (citation_of chunk) = Some (85 / 100)"
    and c: "page (citation_of chunk) = Some (chunkIndex chunk + 1)"
    using js_slice_take [of "chunk_content chunk" 200] by (simp_all add: citation_of_def)
  have d: "hd (fst (fst (queryRAGStream p s question))) =
        Citations (map citation_of (fst (searchChunksByEmbedding s e 5)))"
    and "\<forall>r s'. queryRAG p s question = (Inr r, s') \<longrightarrow>
         answer_citations r = map citation_of (fst (searchChunksByEmbedding s e 5))"
    if "generateEmbedding p question = Inr e"
    using that
    by (auto simp: queryRAGStream_def queryRAG_def Let_def split: prod.splits sum.splits if_splits)
  with a b c show ?thesis by blast
qed

theorem citation_fields_witness:
  "excerpt (citation_of demo_long_chunk) = replicate 200 0x61 @ js ''...'' \<and>
   confidence (citation_of demo_long_chunk) = Some (85 / 100) \<and>
   page (citation_of demo_long_chunk) = Some 4 \<and>
   generateEmbedding demo_providers demo_question = Inr [Num 1, Num 0] \<and>
   fst (queryRAG demo_providers demo_store demo_question) =
     Inr \<lparr>answer = js ''Aspirin helps.'',
          answer_citations = map citation_of (fst (searchChunksByEmbedding demo_store [Num 1, Num 0] 5))\<rparr>"
proof -
  have 1: "generateEmbedding demo_providers demo_question = Inr [Num 1, Num 0]"
    by (simp add: demo_providers_def)
  have "map chunk_id (fst (searchChunksByEmbedding demo_store [Num 1, Num 0] 5)) \<noteq> []"
    by (simp add: demo_search)
  then have 2: "fst (searchChunksByEmbedding demo_store [Num 1, Num 0] 5) \<noteq> []" by auto
  obtain cs s' where sr: "searchChunksByEmbedding demo_store [Num 1, Num 0] 5 = (cs, s')"
    by (cases "searchChunksByEmbedding demo_store [Num 1, Num 0] 5")
  define r where "r = \<lparr>answer = js ''Aspirin helps.'', answer_citations = map citation_of cs\<rparr>"
  have q: "queryRAG demo_providers demo_store demo_question = (Inr r, s')"
    using 2 sr by (simp add: queryRAG_def demo_providers_def r_def)
  have ans: "answer r = js ''Aspirin helps.''" by (simp add: r_def)
  note t = citation_fields [of demo_long_chunk demo_providers demo_question "[Num 1, Num 0]" demo_store]
  from t 1 q have "answer_citations r = map citation_of (fst (searchChunksByEmbedding demo_store [Num 1, Num 0] 5))"
    by blast
  with ans q have 3: "fst (queryRAG demo_providers demo_store demo_question) =
     Inr \<lparr>answer = js ''Aspirin helps.'',
          answer_citations = map citation_of (fst (searchChunksByEmbedding demo_store [Num 1, Num 0] 5))\<rparr>"
    by simp
  from t have "excerpt (citation_of demo_long_chunk) = replicate 200 0x61 @ js ''...''"
    and "confidence (citation_of demo_long_chunk) = Some (85 / 100)"
    and "page (citation_of demo_long_chunk) = Some 4"
    by (simp_all add: demo_long_chunk_def)
  with 1 3 show ?thesis by (intro conjI)
qed

lemma ext_simps:
  "documentId (insertDocumentChunk.extend r (documentChunk.fields u)) = documentId r"
  "chunkIndex (insertDocumentChunk.extend r (documentChunk.fields u)) = chunkIndex r"
  "chunk_content (insertDocumentChunk.extend r (documentChunk.fields u)) = chunk_content r"
  "embedding (insertDocumentChunk.extend r (documentChunk.fields u)) = embedding r"
  "chunk_id (insertDocumentChunk.extend r (documentChunk.fields u)) = u"
  by (simp_all add: insertDocumentChunk.defs documentChunk.defs)

lemma map_set_fresh: "k \<notin> fst ` set m \<Longrightarrow> map_set k v m = m @ [(k, v)]"
  by (induction m) auto

lemma set_map_set: "set (map_set k v m) \<subseteq> insert (k, v) (set m)"
  by (induction m) (auto split: if_splits)

lemma distinct_map_set:
  "distinct (map f (map snd m)) \<Longrightarrow> f v \<notin> f ` snd ` set m \<Longrightarrow>
   distinct (map f (map snd (map_set k v m)))"
proof (induction m)
  case Nil
  then show ?case by simp
next
  case (Cons a m)
  obtain k' v' where a: "a = (k', v')" by (cases a)
  show ?case
  proof (cases "k' = k")
    case True
    with Cons.prems a show ?thesis by auto
  next
    case False
    from Cons.prems a have d: "distinct (map f (map snd (map_set k v m)))"
      by (intro Cons.IH) auto
    have "f v' \<notin> f ` snd ` set (map_set k v m)"
    proof
      assume "f v' \<in> f ` snd ` set (map_set k v m)"
      then obtain e where e: "e \<in> set (map_set k v m)" "f v' = f (snd e)" by auto
      with set_map_set [of k v m] have "e = (k, v) \<or> e \<in> set m" by auto
      with e Cons.prems a show False by force
    qed
    with d False a show ?thesis by (simp add: image_image)
  qed
qed

lemma foldl_store_chunk:
  assumes "\<forall>i. k \<le> i \<and> i < k + length cs \<longrightarrow> uuids i \<notin> fst ` set (documentChunks s)"
    and "inj_on uuids {k..<k + length cs}"
  shows "foldl (store_chunk pd d em uuids stamps) s (enumerate k cs) =
         s\<lparr>documentChunks := documentChunks s @ map (stored_chunk pd d em uuids stamps) (enumerate k cs)\<rparr>"
  using assms
proof (induction cs arbitrary: k s)
  case Nil
  then show ?case by simp
next
  case (Cons c cs)
  let ?s1 = "store_chunk pd d em uuids stamps s (k, c)"
  from Cons.prems(1) have fresh: "uuids k \<notin> fst ` set (documentChunks s)" by simp
  then have s1: "?s1 = s\<lparr>documentChunks := documentChunks s @ [stored_chunk pd d em uuids stamps (k, c)]\<rparr>"
    by (simp add: store_chunk_def createDocumentChunk_def Let_def map_set_fresh stored_chunk_def)
  have a: "\<forall>i. Suc k \<le> i \<and> i < Suc k + length cs \<longrightarrow> uuids i \<notin> fst ` set (documentChunks ?s1)"
  proof (intro allI impI)
    fix i assume i: "Suc k \<le> i \<and> i < Suc k + length cs"
    with Cons.prems(1) have "uuids i \<notin> fst ` set (documentChunks s)" by simp
    moreover have "uuids i \<noteq> uuids k"
    proof
      assume "uuids i = uuids k"
      moreover from i have "i \<in> {k..<k + length (c # cs)}" "k \<in> {k..<k + length (c # cs)}"
        by simp_all
      ultimately have "i = k" using Cons.prems(2) by (meson inj_onD)
      with i show False by simp
    qed
    ultimately show "uuids i \<notin> fst ` set (documentChunks ?s1)"
      by (simp add: s1 stored_chunk_def)
  qed
  from Cons.prems(2) have b: "inj_on uuids {Suc k..<Suc k + length cs}"
    by (rule inj_on_subset) auto
  from Cons.IH [OF a b] show ?case
    by (simp add: s1)
qed

lemma stored_chunk_fields:
  "documentId (snd (stored_chunk pd d em uuids stamps ic)) = d"
  "chunkIndex (snd (stored_chunk pd d em uuids stamps ic)) = int (fst ic)"
  "chunk_content (snd (stored_chunk pd d em uuids stamps ic)) = snd ic"
  by (cases ic; simp add: stored_chunk_def chunk_insert_def ext_simps)+

lemma sorted_enumerate_index:
  "sorted (map (\<lambda>ic. int (fst ic)) (enumerate k cs))"
  by (induction cs arbitrary: k) (auto simp: in_set_enumerate_eq)

lemma distinct_enumerate_index:
  "distinct (map (\<lambda>ic. (d, int (fst ic))) (enumerate k cs))"
  by (simp add: distinct_map inj_on_def) (auto simp: in_set_enumerate_eq)

lemma distinct_enumerate_int: "distinct (map (\<lambda>ic. int (fst ic)) (enumerate k cs))"
  by (simp add: distinct_map inj_on_def) (auto simp: in_set_enumerate_eq)

lemma indexDocument_chunks:
  assumes ok: "fst (indexDocument p (Inr pd) s d uuids stamps) = Inr res"
    and fresh_doc: "d \<notin> documentId ` set (map_values (documentChunks s))"
    and fresh_ids: "\<forall>i < length (doc_chunks pd). uuids i \<notin> fst ` set (documentChunks s)"
    and inj: "inj_on uuids {..<length (doc_chunks pd)}"
  shows "map (\<lambda>chunk. (chunkIndex chunk, chunk_content chunk))
           (fst (getDocumentChunks (snd (indexDocument p (Inr pd) s d uuids stamps)) d)) =
         map (\<lambda>ic. (int (fst ic), snd ic)) (enumerate 0 (doc_chunks pd))"
    and "unique_chunk_indices s \<Longrightarrow>
         unique_chunk_indices (snd (indexDocument p (Inr pd) s d uuids stamps))"
    and "res = (d, length (doc_chunks pd))"
proof -
  from ok obtain em where em: "generateEmbeddings p (doc_chunks pd) = Inr em"
    by (auto simp: indexDocument_def split: sum.splits)
  let ?new = "map (stored_chunk pd d em uuids stamps) (enumerate 0 (doc_chunks pd))"
  have inj': "inj_on uuids {0..<0 + length (doc_chunks pd)}"
    using inj by (simp add: atLeast0LessThan)
  have s': "snd (indexDocument p (Inr pd) s d uuids stamps) =
            s\<lparr>documentChunks := documentChunks s @ ?new\<rparr>"
    using foldl_store_chunk [of 0 "doc_chunks pd" uuids s pd d em stamps] fresh_ids inj'
    by (simp add: indexDocument_def em)
  have old: "filter (\<lambda>chunk. documentId chunk = d) (map_values (documentChunks s)) = []"
    using fresh_doc by (auto simp: filter_empty_conv)
  have new: "filter (\<lambda>chunk. documentId chunk = d) (map snd ?new) = map snd ?new"
    by (simp add: stored_chunk_fields)
  have srt: "sorted (map chunkIndex (map snd ?new))"
    using sorted_enumerate_index [of 0 "doc_chunks pd"]
    by (simp add: comp_def stored_chunk_fields)
  have "fst (getDocumentChunks (snd (indexDocument p (Inr pd) s d uuids stamps)) d) =
        sort_key chunkIndex (map snd ?new)"
    using old new by (simp add: s' getDocumentChunks_def map_values_def)
  also have "\<dots> = map snd ?new" using srt by (rule sort_key_id_if_sorted)
  finally show "map (\<lambda>chunk. (chunkIndex chunk, chunk_content chunk))
           (fst (getDocumentChunks (snd (indexDocument p (Inr pd) s d uuids stamps)) d)) =
         map (\<lambda>ic. (int (fst ic), snd ic)) (enumerate 0 (doc_chunks pd))"
    by (simp add: comp_def stored_chunk_fields)
  show "unique_chunk_indices (snd (indexDocument p (Inr pd) s d uuids stamps))"
    if "unique_chunk_indices s"
  proof -
    have "doc_index_pairs (snd (indexDocument p (Inr pd) s d uuids stamps)) =
          doc_index_pairs s @ map (\<lambda>ic. (d, int (fst ic))) (enumerate 0 (doc_chunks pd))"
      by (simp add: s' doc_index_pairs_def map_values_def comp_def stored_chunk_fields)
    moreover have "set (doc_index_pairs s) \<inter>
        set (map (\<lambda>ic. (d, int (fst ic))) (enumerate 0 (doc_chunks pd))) = {}"
      using fresh_doc by (auto simp: doc_index_pairs_def)
    ultimately show ?thesis
      using that distinct_enumerate_index [of d 0 "doc_chunks pd"]
      by (simp add: unique_chunk_indices_def)
  qed
  from ok em show "res = (d, length (doc_chunks pd))"
    by (simp add: indexDocument_def)
qed

lemma createDocumentChunk_unique:
  assumes "unique_chunk_indices s"
    and "(documentId ins, chunkIndex ins) \<notin> set (doc_index_pairs s)"
  shows "unique_chunk_indices (snd (createDocumentChunk s ins uuid))"
proof -
  let ?f = "\<lambda>chunk::documentChunk. (documentId chunk, chunkIndex chunk)"
  let ?v = "insertDocumentChunk.extend ins (documentChunk.fields uuid)"
  have v: "?f ?v = (documentId ins, chunkIndex ins)" by (simp add: ext_simps)
  from assms(1) have "distinct (map ?f (map snd (documentChunks s)))"
    by (simp add: unique_chunk_indices_def doc_index_pairs_def map_values_def)
  moreover from assms(2) have "?f ?v \<notin> ?f ` snd ` set (documentChunks s)"
    unfolding v by (auto simp: doc_index_pairs_def map_values_def)
  ultimately have "distinct (map ?f (map snd (map_set uuid ?v (documentChunks s))))"
    by (rule distinct_map_set)
  then show ?thesis
    by (simp add: unique_chunk_indices_def doc_index_pairs_def map_values_def
        createDocumentChunk_def Let_def)
qed

lemma apply_op_unique:
  assumes "unique_chunk_indices s" and "admits s op"
  shows "unique_chunk_indices (apply_op s op)"
proof (cases op)
  case (CreateDocumentChunk ins uuid)
  with assms show ?thesis by (simp add: admits_def createDocumentChunk_unique)
next
  case (UpdateConversation cid data now)
  with assms(1) show ?thesis
    by (simp add: updateConversation_def unique_chunk_indices_def doc_index_pairs_def Let_def
        split: option.splits)
qed (use assms(1) in \<open>simp_all add: unique_chunk_indices_def doc_index_pairs_def createMessage_def
      getMessagesByConversation_def createConversation_def getConversation_def
      getDocumentChunks_def searchChunksByEmbedding_def getAllChunks_def Let_def\<close>)

text \<open>
  C9, as the code has it. When \<open>indexDocument\<close> completes with a document identifier
  that no stored chunk carries and chunk identifiers that are new and distinct (as
  \<open>randomUUID()\<close> draws them), the chunks stored for the document, read in the order of
  their indices, are the extracted chunks in extraction order, the chunk at position
  \<open>i\<close> with index \<open>i\<close>; the indices are pairwise distinct; and uniqueness of the indices
  within every document carries over from the store before the call to the store after
  it. Uniqueness within each document is preserved by every store operation except a
  \<open>createDocumentChunk\<close> whose pair of document identifier and chunk index is already
  stored: the store does not check the pair.
\<close>

theorem indexDocument_chunk_indices:
  assumes "fst (indexDocument p (Inr pd) s d uuids stamps) = Inr res"
    and "d \<notin> documentId ` set (map_values (documentChunks s))"
    and "\<forall>i < length (doc_chunks pd). uuids i \<notin> fst ` set (documentChunks s)"
    and "inj_on uuids {..<length (doc_chunks pd)}"
  shows "map (\<lambda>chunk. (chunkIndex chunk, chunk_content chunk))
           (fst (getDocumentChunks (snd (indexDocument p (Inr pd) s d uuids stamps)) d)) =
         map (\<lambda>ic. (int (fst ic), snd ic)) (enumerate 0 (doc_chunks pd)) \<and>
         distinct (map chunkIndex
           (fst (getDocumentChunks (snd (indexDocument p (Inr pd) s d uuids stamps)) d))) \<and>
         (unique_chunk_indices s \<longrightarrow>
            unique_chunk_indices (snd (indexDocument p (Inr pd) s d uuids stamps))) \<and>
         (\<forall>t op. unique_chunk_indices t \<and> admits t op \<longrightarrow> unique_chunk_indices (apply_op t op))"
proof -
  let ?cs = "fst (getDocumentChunks (snd (indexDocument p (Inr pd) s d uuids stamps)) d)"
  have eq: "map (\<lambda>chunk. (chunkIndex chunk, chunk_content chunk)) ?cs =
         map (\<lambda>ic. (int (fst ic), snd ic)) (enumerate 0 (doc_chunks pd))"
    using assms by (rule indexDocument_chunks(1))
  have "map chunkIndex ?cs = map fst (map (\<lambda>chunk. (chunkIndex chunk, chunk_content chunk)) ?cs)"
    by (simp add: comp_def)
  also have "\<dots> = map (\<lambda>ic. int (fst ic)) (enumerate 0 (doc_chunks pd))"
    by (simp only: eq) (simp add: comp_def)
  finally have dist: "distinct (map chunkIndex ?cs)"
    by (simp only: distinct_enumerate_int)
  have pres: "unique_chunk_indices (snd (indexDocument p (Inr pd) s d uuids stamps))"
    if "unique_chunk_indices s"
    using assms that by (rule indexDocument_chunks(2))
  from eq dist pres apply_op_unique show ?thesis by blast
qed

lemma inj_demo_uuids: "inj_on demo_uuids {..<3}"
proof -
  have "{..<3::nat} = {0, 1, 2}" by auto
  then show ?thesis by (simp add: demo_uuids_def js_def)
qed

theorem indexDocument_chunk_indices_witness:
  "fst (indexDocument demo_providers (Inr demo_document) newMemStorage (js ''doc-1'') demo_uuids demo_stamps) =
     Inr (js ''doc-1'', 3) \<and>
   map (\<lambda>chunk. (chunkIndex chunk, chunk_content chunk)) (fst (getDocumentChunks demo_store (js ''doc-1''))) =
     [(0, js ''Aspirin relieves mild to moderate pain and reduces fever in adults''),
      (1, js ''Store the tablets below 25 degrees in a dry place away from light''),
      (2, js ''Keep every medicine out of the sight and out of the reach of children'')] \<and>
   unique_chunk_indices demo_store \<and>
   admits demo_store demo_append \<and>
   unique_chunk_indices (apply_op demo_store demo_append)"
proof -
  have 1: "fst (indexDocument demo_providers (Inr demo_document) newMemStorage (js ''doc-1'') demo_uuids demo_stamps) =
     Inr (js ''doc-1'', 3)"
    by (simp add: indexDocument_def demo_providers_def demo_document_def)
  have 2: "js ''doc-1'' \<notin> documentId ` set (map_values (documentChunks newMemStorage))"
    by (simp add: newMemStorage_def map_values_def)
  have 3: "\<forall>i < length (doc_chunks demo_document). demo_uuids i \<notin> fst ` set (documentChunks newMemStorage)"
    by (simp add: newMemStorage_def)
  have len: "length (doc_chunks demo_document) = 3" by (simp add: demo_document_def)
  have 4: "inj_on demo_uuids {..<length (doc_chunks demo_document)}"
    unfolding len by (rule inj_demo_uuids)
  have 5: "unique_chunk_indices newMemStorage"
    by (simp add: unique_chunk_indices_def doc_index_pairs_def newMemStorage_def map_values_def)
  note t = indexDocument_chunk_indices [OF 1 2 3 4]
  from t have a: "map (\<lambda>chunk. (chunkIndex chunk, chunk_content chunk)) (fst (getDocumentChunks demo_store (js ''doc-1''))) =
     [(0, js ''Aspirin relieves mild to moderate pain and reduces fever in adults''),
      (1, js ''Store the tablets below 25 degrees in a dry place away from light''),
      (2, js ''Keep every medicine out of the sight and out of the reach of children'')]"
    by (simp add: demo_store_def demo_document_def enumerate_eq_zip)
  from t 5 have b: "unique_chunk_indices demo_store" by (simp add: demo_store_def)
  have "doc_index_pairs demo_store = [(js ''doc-1'', 0), (js ''doc-1'', 1), (js ''doc-1'', 2)]"
    by (simp add: demo_defs doc_index_pairs_def)
  then have c: "admits demo_store demo_append"
    by (simp add: admits_def demo_append_def)
  from t b c have d: "unique_chunk_indices (apply_op demo_store demo_append)" by blast
  from 1 a b c d show ?thesis by (intro conjI)
qed

text \<open>
  C9 as stated fails: after \<open>indexDocument\<close> has stored the three chunks of a document,
  a \<open>createDocumentChunk\<close> with the same document identifier and index 0 is stored beside
  them, and the document holds two chunks of index 0.
\<close>

theorem indexDocument_chunk_indices_counterexample:
  "unique_chunk_indices demo_store \<and>
   \<not> unique_chunk_indices (apply_op demo_store demo_duplicate) \<and>
   map chunkIndex (fst (getDocumentChunks (apply_op demo_store demo_duplicate) (js ''doc-1''))) =
     [0, 0, 1, 2]"
  by (simp add: demo_defs demo_duplicate_def unique_chunk_indices_def doc_index_pairs_def
      getDocumentChunks_def)

end
